theory Spec2Isabelle
  imports Main "HOL-Library.Word" "HOL-Library.AList"
begin

unbundle bit_operations_syntax

text \<open>
  A shallow embedding of the privacy pipeline of Simplitics: the client library
  (validation, consent queue, PII sanitizer) and the server (encryption helpers, event
  store, GDPR erasure, retention sweep).

  A JavaScript string is a list of 16-bit code units (\<open>jsstring\<close>). Program text,
  object keys, URLs, header values and hexadecimal tokens are written as Isabelle
  strings, one \<open>char\<close> per code unit below 256, and \<open>units_of\<close> reads such a string as
  code units; the character classes and \<open>toLowerCase\<close> are those of ASCII. A thrown
  exception is the \<open>Inl\<close> of a sum type; \<open>null\<close> is \<open>None\<close> where a function returns
  a string or \<open>null\<close>.
\<close>

section \<open>Strings\<close>

definition startsWith :: "string \<Rightarrow> string \<Rightarrow> bool" where
  "startsWith s p = (take (length p) s = p)"

text \<open>\<open>String.prototype.includes\<close>: \<open>p\<close> occurs in \<open>s\<close> as a contiguous substring.\<close>

fun includes_str :: "string \<Rightarrow> string \<Rightarrow> bool" where
  "includes_str [] p = (p = [])"
| "includes_str (c # s) p = (startsWith (c # s) p \<or> includes_str s p)"

definition charCode :: "char \<Rightarrow> nat" where
  "charCode c = of_char c"

definition isUpper :: "char \<Rightarrow> bool" where
  "isUpper c = (charCode CHR ''A'' \<le> charCode c \<and> charCode c \<le> charCode CHR ''Z'')"

definition isLower :: "char \<Rightarrow> bool" where
  "isLower c = (charCode CHR ''a'' \<le> charCode c \<and> charCode c \<le> charCode CHR ''z'')"

definition isDigit :: "char \<Rightarrow> bool" where
  "isDigit c = (charCode CHR ''0'' \<le> charCode c \<and> charCode c \<le> charCode CHR ''9'')"

definition toLowerCase :: "string \<Rightarrow> string" where
  "toLowerCase s = map (\<lambda>c. if isUpper c then char_of (charCode c + 32) else c) s"

fun join :: "string \<Rightarrow> string list \<Rightarrow> string" where
  "join sep [] = []"
| "join sep [x] = x"
| "join sep (x # y # ys) = x @ sep @ join sep (y # ys)"

text \<open>\<open>String.prototype.split\<close> with a one-character separator.\<close>

fun split_str :: "char \<Rightarrow> string \<Rightarrow> string list" where
  "split_str sep [] = [[]]"
| "split_str sep (c # s) =
     (if c = sep then [] # split_str sep s
      else (case split_str sep s of [] \<Rightarrow> [[c]] | p # ps \<Rightarrow> (c # p) # ps))"

definition hexDigit :: "nat \<Rightarrow> char" where
  "hexDigit n = ''0123456789abcdef'' ! (n mod 16)"

definition hexDigitUpper :: "nat \<Rightarrow> char" where
  "hexDigitUpper n = ''0123456789ABCDEF'' ! (n mod 16)"

text \<open>The decimal digits of a natural number, as \<open>Number.prototype.toString\<close> prints an integer.\<close>

fun decimal :: "nat \<Rightarrow> string" where
  "decimal n = (if n < 10 then [hexDigit n] else decimal (n div 10) @ [hexDigit (n mod 10)])"

declare decimal.simps [simp del]

text \<open>The regular expression \<open>/^[a-zA-Z0-9_]+$/\<close> of validation.js.\<close>

definition VALID_EVENT_NAME_PATTERN :: "string \<Rightarrow> bool" where
  "VALID_EVENT_NAME_PATTERN s =
     (s \<noteq> [] \<and> list_all (\<lambda>c. isLower c \<or> isUpper c \<or> isDigit c \<or> c = CHR ''_'') s)"

section \<open>Code units and UTF-8\<close>

text \<open>
  The string type of the language: UTF-16 code units, surrogates paired or not. A
  character-for-unit reading turns an Isabelle string into one.
\<close>

type_synonym byte = "8 word"
type_synonym jsstring = "16 word list"

definition units_of :: "string \<Rightarrow> jsstring" where
  "units_of s = map of_char s"

definition isHigh :: "16 word \<Rightarrow> bool" where
  "isHigh u = (0xD800 \<le> uint u \<and> uint u \<le> 0xDBFF)"

definition isLow :: "16 word \<Rightarrow> bool" where
  "isLow u = (0xDC00 \<le> uint u \<and> uint u \<le> 0xDFFF)"

text \<open>
  The scalar values of a string, as the conversion to a \<open>USVString\<close> and the \<open>'utf8'\<close>
  encoding of a \<open>Buffer\<close> read it: a surrogate pair is one code point, and a surrogate
  without its partner is replaced by U+FFFD.
\<close>

fun scalars :: "jsstring \<Rightarrow> int list" where
  "scalars [] = []"
| "scalars [u] = [if isHigh u \<or> isLow u then 0xFFFD else uint u]"
| "scalars (u # v # s) =
     (if isHigh u \<and> isLow v
        then (0x10000 + (uint u - 0xD800) * 0x400 + (uint v - 0xDC00)) # scalars s
      else (if isHigh u \<or> isLow u then 0xFFFD else uint u) # scalars (v # s))"

text \<open>The code units of a code point.\<close>

definition units :: "int \<Rightarrow> jsstring" where
  "units cp =
     (if cp < 0x10000 then [word_of_int cp]
      else [word_of_int (0xD800 + (cp - 0x10000) div 0x400),
            word_of_int (0xDC00 + (cp - 0x10000) mod 0x400)])"

text \<open>\<open>String.prototype.toWellFormed\<close> and \<open>String.prototype.isWellFormed\<close>.\<close>

definition toWellFormed :: "jsstring \<Rightarrow> jsstring" where
  "toWellFormed s = concat (map units (scalars s))"

fun isWellFormed :: "jsstring \<Rightarrow> bool" where
  "isWellFormed [] = True"
| "isWellFormed [u] = (\<not> isHigh u \<and> \<not> isLow u)"
| "isWellFormed (u # v # s) =
     (if isHigh u then isLow v \<and> isWellFormed s else \<not> isLow u \<and> isWellFormed (v # s))"

text \<open>The UTF-8 bytes of a scalar value, and of a string (\<open>TextEncoder.encode\<close>).\<close>

definition utf8 :: "int \<Rightarrow> int list" where
  "utf8 cp =
     (if cp < 0x80 then [cp]
      else if cp < 0x800 then [0xC0 + cp div 64, 0x80 + cp mod 64]
      else if cp < 0x10000 then [0xE0 + cp div 4096, 0x80 + cp div 64 mod 64, 0x80 + cp mod 64]
      else [0xF0 + cp div 262144, 0x80 + cp div 4096 mod 64, 0x80 + cp div 64 mod 64, 0x80 + cp mod 64])"

definition utf8_encode :: "jsstring \<Rightarrow> byte list" where
  "utf8_encode s = map word_of_int (concat (map utf8 (scalars s)))"

text \<open>
  The UTF-8 decoder of the Encoding Standard, without the BOM handling: its state is
  the code point so far, the number of bytes still needed, and the bounds of the next
  byte. A byte that does not fit ends the sequence with U+FFFD and is read again; so
  does the end of the input.
\<close>

type_synonym decoder = "int \<times> nat \<times> int \<times> int"

function utf8_decoder :: "decoder \<Rightarrow> int list \<Rightarrow> int list" where
  "utf8_decoder (cp, needed, lower, upper) [] = (if needed = 0 then [] else [0xFFFD])"
| "utf8_decoder (cp, needed, lower, upper) (b # bs) =
     (if needed = 0 then
        (if b \<le> 0x7F then b # utf8_decoder (0, 0, 0x80, 0xBF) bs
         else if 0xC2 \<le> b \<and> b \<le> 0xDF then utf8_decoder (b - 0xC0, 1, 0x80, 0xBF) bs
         else if 0xE0 \<le> b \<and> b \<le> 0xEF
           then utf8_decoder (b - 0xE0, 2, if b = 0xE0 then 0xA0 else 0x80,
                                if b = 0xED then 0x9F else 0xBF) bs
         else if 0xF0 \<le> b \<and> b \<le> 0xF4
           then utf8_decoder (b - 0xF0, 3, if b = 0xF0 then 0x90 else 0x80,
                                if b = 0xF4 then 0x8F else 0xBF) bs
         else 0xFFFD # utf8_decoder (0, 0, 0x80, 0xBF) bs)
      else if \<not> (lower \<le> b \<and> b \<le> upper) then 0xFFFD # utf8_decoder (0, 0, 0x80, 0xBF) (b # bs)
      else if needed = 1 then (cp * 64 + (b - 0x80)) # utf8_decoder (0, 0, 0x80, 0xBF) bs
      else utf8_decoder (cp * 64 + (b - 0x80), needed - 1, 0x80, 0xBF) bs)"
  by pat_completeness auto

termination
  by (relation "measure (\<lambda>(st, bs). 2 * length bs + (if fst (snd st) = 0 then 0 else 1))") auto

definition utf8_decode :: "byte list \<Rightarrow> jsstring" where
  "utf8_decode bs = concat (map units (utf8_decoder (0, 0, 0x80, 0xBF) (map uint bs)))"

text \<open>
  Where a byte sequence is written as text (a query string), it is an Isabelle string,
  one \<open>char\<close> per byte.
\<close>

definition chars_of_bytes :: "byte list \<Rightarrow> string" where
  "chars_of_bytes bs = map (\<lambda>b. char_of (uint b)) bs"

definition bytes_of_chars :: "string \<Rightarrow> byte list" where
  "bytes_of_chars s = map of_char s"

text \<open>
  Two predicates for the proofs: a scalar value is a code point that is not a
  surrogate, and a decoder state is sound when every way to complete the sequence it
  has begun gives a scalar value.
\<close>

definition scalar :: "int \<Rightarrow> bool" where
  "scalar cp = ((0 \<le> cp \<and> cp < 0xD800) \<or> (0xE000 \<le> cp \<and> cp < 0x110000))"

definition pending_ok :: "decoder \<Rightarrow> bool" where
  "pending_ok st =
     (case st of (cp, needed, lower, upper) \<Rightarrow>
        needed = 0 \<or>
        (0 \<le> cp \<and> 0x80 \<le> lower \<and> upper \<le> 0xBF \<and>
         (let k = (if needed = 1 then 1 else if needed = 2 then 64 else 4096);
              lo = (cp * 64 + (lower - 0x80)) * k;
              hi = (cp * 64 + (upper - 0x80) + 1) * k
          in needed \<le> 3 \<and> (hi \<le> 0xD800 \<or> (0xE000 \<le> lo \<and> hi \<le> 0x110000)))))"

section \<open>JavaScript values\<close>

text \<open>
  Numbers are modelled as integers (no fractions, \<open>NaN\<close> or infinities); a function
  value carries the source text that \<open>String(f)\<close> returns. An object is the list of its
  own properties in insertion order.
\<close>

datatype jsval =
    JUndefined
  | JNull
  | JBool bool
  | JNum int
  | JStr string
  | JArr "jsval list"
  | JObj "(string \<times> jsval) list"
  | JFun string

type_synonym object = "(string \<times> jsval) list"

fun truthy :: "jsval \<Rightarrow> bool" where
  "truthy JUndefined = False"
| "truthy JNull = False"
| "truthy (JBool b) = b"
| "truthy (JNum n) = (n \<noteq> 0)"
| "truthy (JStr s) = (s \<noteq> [])"
| "truthy (JArr xs) = True"
| "truthy (JObj ps) = True"
| "truthy (JFun src) = True"

fun typeof :: "jsval \<Rightarrow> string" where
  "typeof JUndefined = ''undefined''"
| "typeof JNull = ''object''"
| "typeof (JBool b) = ''boolean''"
| "typeof (JNum n) = ''number''"
| "typeof (JStr s) = ''string''"
| "typeof (JArr xs) = ''object''"
| "typeof (JObj ps) = ''object''"
| "typeof (JFun src) = ''function''"

fun isArray :: "jsval \<Rightarrow> bool" where
  "isArray (JArr xs) = True"
| "isArray _ = False"

definition NumberToString :: "int \<Rightarrow> string" where
  "NumberToString n = (if n < 0 then ''-'' @ decimal (nat (- n)) else decimal (nat n))"

text \<open>The abstract operation \<open>ToString\<close>, as \<open>String(v)\<close> and template literals apply it.\<close>

fun ToString :: "jsval \<Rightarrow> string" where
  "ToString JUndefined = ''undefined''"
| "ToString JNull = ''null''"
| "ToString (JBool b) = (if b then ''true'' else ''false'')"
| "ToString (JNum n) = NumberToString n"
| "ToString (JStr s) = s"
| "ToString (JArr xs) =
     join '','' (map (\<lambda>x. if x = JUndefined \<or> x = JNull then [] else ToString x) xs)"
| "ToString (JObj ps) = ''[object Object]''"
| "ToString (JFun src) = src"

text \<open>
  What a function throws: an \<open>Error\<close> with its message, a \<open>TypeError\<close>, an error of the
  crypto library, or a validation error of the Prisma client.
\<close>

datatype error = Error string | TypeError | CryptoError | PrismaValidationError

text \<open>Property access \<open>o[k]\<close>, \<open>k in o\<close>, \<open>delete o[k]\<close> and \<open>o[k] = v\<close> on an object.\<close>

definition getProp :: "object \<Rightarrow> string \<Rightarrow> jsval" where
  "getProp ps k = (case map_of ps k of None \<Rightarrow> JUndefined | Some v \<Rightarrow> v)"

definition hasProp :: "object \<Rightarrow> string \<Rightarrow> bool" where
  "hasProp ps k = (k \<in> fst ` set ps)"

definition deleteProp :: "string \<Rightarrow> object \<Rightarrow> object" where
  "deleteProp k ps = AList.delete k ps"

definition setProp :: "string \<Rightarrow> jsval \<Rightarrow> object \<Rightarrow> object" where
  "setProp k v ps = AList.update k v ps"

text \<open>Member access on any value: only objects carry the properties the code reads.\<close>

fun getMember :: "jsval \<Rightarrow> string \<Rightarrow> jsval" where
  "getMember (JObj ps) k = getProp ps k"
| "getMember _ k = JUndefined"

fun isIn :: "string \<Rightarrow> jsval \<Rightarrow> bool" where
  "isIn k (JObj ps) = hasProp ps k"
| "isIn k _ = False"

section \<open>Event repository and retention sweep (backend/src/services/database.js)\<close>

text \<open>
  The Prisma models \<open>Site\<close> and \<open>Event\<close>. Timestamps are JavaScript time values:
  integer milliseconds since the epoch. Nullable columns are options.
\<close>

record site =
  siteId :: string
  name :: string
  domain :: "string option"
  settings :: string
  apiKey :: string
  retentionDays :: int

record event =
  e_siteId :: string
  e_type :: string
  e_properties :: string
  e_timestamp :: int
  e_ip :: "string option"
  e_userAgent :: "string option"
  e_sessionId :: "string option"

record database =
  sites :: "site list"
  events :: "event list"

text \<open>\<open>prisma.event.deleteMany({ where })\<close>: removes the matching rows and returns their count.\<close>

definition event_deleteMany :: "(event \<Rightarrow> bool) \<Rightarrow> event list \<Rightarrow> nat \<times> event list" where
  "event_deleteMany wh es = (length (filter wh es), filter (\<lambda>e. \<not> wh e) es)"

text \<open>
  \<open>new Date(value)\<close>: the time value, or an invalid date (\<open>None\<close>) when the value is more
  than 8.64e15 ms away from the epoch. The clock readings and \<open>retentionDays\<close> are
  integers, for which the arithmetic of the language is exact over this range.
\<close>

definition Date :: "int \<Rightarrow> int option" where
  "Date tv = (if \<bar>tv\<bar> \<le> 8640000000000000 then Some tv else None)"

text \<open>
  The loop of \<open>cleanupOldEvents\<close>. \<open>Date.now()\<close> is read once per site, inside the loop:
  \<open>now i\<close> is the reading of the \<open>i\<close>-th iteration. The Prisma client rejects an invalid
  date in a filter: the rejection leaves \<open>cleanupOldEvents\<close> at that site, with the rows
  of the earlier sites already deleted.
\<close>

fun cleanup_loop ::
  "(nat \<Rightarrow> int) \<Rightarrow> nat \<Rightarrow> site list \<Rightarrow> event list \<Rightarrow> nat \<Rightarrow> (error + nat) \<times> event list" where
  "cleanup_loop now i [] es totalDeleted = (Inr totalDeleted, es)"
| "cleanup_loop now i (s # ss) es totalDeleted =
     (case Date (now i - retentionDays s * 24 * 60 * 60 * 1000) of
        None \<Rightarrow> (Inl PrismaValidationError, es)
      | Some cutoffDate \<Rightarrow>
          (let (count, es') = event_deleteMany (\<lambda>e. e_siteId e = siteId s \<and> e_timestamp e < cutoffDate) es
           in cleanup_loop now (Suc i) ss es' (totalDeleted + count)))"

definition cleanupOldEvents :: "(nat \<Rightarrow> int) \<Rightarrow> database \<Rightarrow> (error + nat) \<times> database" where
  "cleanupOldEvents now db =
     (let (r, es) = cleanup_loop now 0 (sites db) (events db) 0
      in (r, db\<lparr>events := es\<rparr>))"

text \<open>
  The specification of the sweep, with the day written out in milliseconds. An event
  is past retention when some site of its \<open>siteId\<close> puts its timestamp before that
  site's cutoff; the sites from the \<open>i\<close>-th reading of the clock on are \<open>ss\<close>. The cutoffs are
  dates when none is further than 8.64e15 ms from the epoch.
\<close>

definition expired :: "(nat \<Rightarrow> int) \<Rightarrow> nat \<Rightarrow> site list \<Rightarrow> event \<Rightarrow> bool" where
  "expired now i ss e =
     (\<exists>j < length ss. e_siteId e = siteId (ss ! j) \<and>
        e_timestamp e < now (i + j) - retentionDays (ss ! j) * 86400000)"

definition cutoff_is_date :: "(nat \<Rightarrow> int) \<Rightarrow> nat \<Rightarrow> site list \<Rightarrow> nat \<Rightarrow> bool" where
  "cutoff_is_date now i ss j =
     (\<bar>now (i + j) - retentionDays (ss ! j) * 86400000\<bar> \<le> 8640000000000000)"

text \<open>An event of the test site with a given type and timestamp, for the examples.\<close>

definition ex_event_at :: "string \<Rightarrow> int \<Rightarrow> event" where
  "ex_event_at ty ts = \<lparr>e_siteId = ''test-site'', e_type = ty, e_properties = ''{}'', e_timestamp = ts,
                        e_ip = None, e_userAgent = None, e_sessionId = None\<rparr>"

section \<open>JSON.stringify\<close>

definition JSON_escape :: "char \<Rightarrow> string" where
  "JSON_escape c =
     (if c = CHR 0x22 then [CHR 0x5C, CHR 0x22]
      else if c = CHR 0x5C then [CHR 0x5C, CHR 0x5C]
      else if c = CHR 0x08 then [CHR 0x5C, CHR ''b'']
      else if c = CHR 0x0C then [CHR 0x5C, CHR ''f'']
      else if c = CHR 0x0A then [CHR 0x5C, CHR ''n'']
      else if c = CHR 0x0D then [CHR 0x5C, CHR ''r'']
      else if c = CHR 0x09 then [CHR 0x5C, CHR ''t'']
      else if charCode c < 32
        then [CHR 0x5C, CHR ''u'', CHR ''0'', CHR ''0'', hexDigit (charCode c div 16), hexDigit (charCode c)]
      else [c])"

definition JSON_quote :: "string \<Rightarrow> string" where
  "JSON_quote s = [CHR 0x22] @ concat (map JSON_escape s) @ [CHR 0x22]"

text \<open>
  \<open>JSON.stringify\<close> returns \<open>undefined\<close> (\<open>None\<close>) for \<open>undefined\<close> and for functions; inside
  an array such a value is written \<open>null\<close>, inside an object the property is left out.
\<close>

fun JSON_stringify :: "jsval \<Rightarrow> string option"
  and stringify_elems :: "jsval list \<Rightarrow> string list"
  and stringify_props :: "(string \<times> jsval) list \<Rightarrow> string list" where
  "JSON_stringify JUndefined = None"
| "JSON_stringify (JFun src) = None"
| "JSON_stringify JNull = Some ''null''"
| "JSON_stringify (JBool b) = Some (if b then ''true'' else ''false'')"
| "JSON_stringify (JNum n) = Some (NumberToString n)"
| "JSON_stringify (JStr s) = Some (JSON_quote s)"
| "JSON_stringify (JArr xs) = Some (''['' @ join '','' (stringify_elems xs) @ '']'')"
| "JSON_stringify (JObj ps) = Some (''{'' @ join '','' (stringify_props ps) @ ''}'')"
| "stringify_elems [] = []"
| "stringify_elems (x # xs) =
     (case JSON_stringify x of None \<Rightarrow> ''null'' | Some t \<Rightarrow> t) # stringify_elems xs"
| "stringify_props [] = []"
| "stringify_props (kv # ps) =
     (case JSON_stringify (snd kv) of None \<Rightarrow> [] | Some t \<Rightarrow> [JSON_quote (fst kv) @ '':'' @ t])
     @ stringify_props ps"

section \<open>The platform's URL class\<close>

text \<open>
  A URL record of the WHATWG URL Standard, with its serializer and the \<open>search\<close>
  accessors. The parser itself (\<open>new URL(s)\<close>, which throws a \<open>TypeError\<close> on failure)
  is a parameter of every function that calls it: \<open>None\<close> is the throw.
\<close>

record url =
  scheme :: string
  username :: string
  password :: string
  host :: "string option"
  port :: "nat option"
  path :: string
  opaque_path :: bool
  query :: "string option"
  fragment :: "string option"

type_synonym url_parser = "string \<Rightarrow> url option"

definition protocol :: "url \<Rightarrow> string" where
  "protocol u = scheme u @ '':''"

definition search :: "url \<Rightarrow> string" where
  "search u = (case query u of None \<Rightarrow> [] | Some q \<Rightarrow> if q = [] then [] else ''?'' @ q)"

definition is_special :: "string \<Rightarrow> bool" where
  "is_special s = (s \<in> set [''ftp'', ''file'', ''http'', ''https'', ''ws'', ''wss''])"

text \<open>The URL serializer: \<open>url.toString()\<close> and \<open>url.href\<close>.\<close>

definition href :: "url \<Rightarrow> string" where
  "href u =
     scheme u @ '':''
     @ (case host u of
          Some h \<Rightarrow>
            ''//''
            @ (if username u \<noteq> [] \<or> password u \<noteq> []
               then username u @ (if password u \<noteq> [] then '':'' @ password u else []) @ ''@''
               else [])
            @ h
            @ (case port u of None \<Rightarrow> [] | Some p \<Rightarrow> '':'' @ decimal p)
        | None \<Rightarrow> if \<not> opaque_path u \<and> startsWith (path u) ''//'' then ''/.'' else [])
     @ path u
     @ (case query u of None \<Rightarrow> [] | Some q \<Rightarrow> ''?'' @ q)
     @ (case fragment u of None \<Rightarrow> [] | Some f \<Rightarrow> ''#'' @ f)"

definition percentEncode :: "char \<Rightarrow> string" where
  "percentEncode c = [CHR ''%'', hexDigitUpper (charCode c div 16), hexDigitUpper (charCode c)]"

text \<open>The query percent-encode set (with \<open>'\<close> added for special schemes).\<close>

definition in_query_set :: "bool \<Rightarrow> char \<Rightarrow> bool" where
  "in_query_set special c =
     (charCode c \<le> 32 \<or> charCode c > 126 \<or> c = CHR 0x22 \<or> c = CHR ''#'' \<or> c = CHR ''<''
      \<or> c = CHR ''>'' \<or> (special \<and> c = CHR 0x27))"

fun dropWhileEnd_space :: "string \<Rightarrow> string" where
  "dropWhileEnd_space s = rev (dropWhile (\<lambda>c. c = CHR '' '') (rev s))"

text \<open>
  The \<open>search\<close> setter: \<open>url.search = v\<close>. The value loses a leading \<open>?\<close>, its tabs and
  newlines; the bytes of its UTF-8 encoding that are in the query percent-encode set
  are percent-encoded.
\<close>

definition set_search :: "string \<Rightarrow> url \<Rightarrow> url" where
  "set_search v u =
     (if v = [] then
        (let u' = u\<lparr>query := None\<rparr>
         in if opaque_path u' \<and> fragment u' = None then u'\<lparr>path := dropWhileEnd_space (path u')\<rparr> else u')
      else
        (let input = (if hd v = CHR ''?'' then tl v else v);
             cleaned = filter (\<lambda>c. c \<noteq> CHR 0x09 \<and> c \<noteq> CHR 0x0A \<and> c \<noteq> CHR 0x0D) input
         in u\<lparr>query := Some (concat (map (\<lambda>c. if in_query_set (is_special (scheme u)) c
                                               then percentEncode c else [c])
                                        (chars_of_bytes (utf8_encode (units_of cleaned)))))\<rparr>))"

text \<open>
  What \<open>new URL\<close> returns on the inputs of the examples below, row by row as the
  WHATWG parser gives it (a special scheme gets the path \<open>/\<close> when the input has none);
  on every other input this table says \<open>None\<close>. It instantiates the parser parameter in
  the examples only.
\<close>

definition http_url :: "string \<Rightarrow> string \<Rightarrow> string \<Rightarrow> string option \<Rightarrow> url" where
  "http_url sch h p q =
     \<lparr>scheme = sch, username = [], password = [], host = Some h, port = None,
      path = p, opaque_path = False, query = q, fragment = None\<rparr>"

definition URL_examples :: url_parser where
  "URL_examples = map_of
     [(''http://example.com?utm_source=test&utm_medium=email&name=john'',
         http_url ''http'' ''example.com'' ''/'' (Some ''utm_source=test&utm_medium=email&name=john'')),
      (''http://example.com?id=123&utm_source=test&page=2&utm_medium=email'',
         http_url ''http'' ''example.com'' ''/'' (Some ''id=123&utm_source=test&page=2&utm_medium=email'')),
      (''http://example.com/?name=john'', http_url ''http'' ''example.com'' ''/'' (Some ''name=john'')),
      (''http://example.com/?a=%FF&utm_source=x'',
         http_url ''http'' ''example.com'' ''/'' (Some ''a=%FF&utm_source=x'')),
      (''https://example.com/search?q=caf%C3%A9+au%20lait&utm_term=x&&b#top'',
         (http_url ''https'' ''example.com'' ''/search'' (Some ''q=caf%C3%A9+au%20lait&utm_term=x&&b''))
           \<lparr>fragment := Some ''top''\<rparr>),
      (''http://example.com//'', http_url ''http'' ''example.com'' ''//'' None),
      (''http://example.com/'', http_url ''http'' ''example.com'' ''/'' None),
      (''http://example.com'', http_url ''http'' ''example.com'' ''/'' None),
      (''https://example.com/page/?utm_campaign=spring'',
         http_url ''https'' ''example.com'' ''/page/'' (Some ''utm_campaign=spring'')),
      (''https://test-api.simplitics.com'', http_url ''https'' ''test-api.simplitics.com'' ''/'' None),
      (''https://api.simplitics.com/v1'', http_url ''https'' ''api.simplitics.com'' ''/v1'' None),
      (''http://api.simplitics.com/v1'', http_url ''http'' ''api.simplitics.com'' ''/v1'' None),
      (''httpsx://api.simplitics.com/v1'', http_url ''httpsx'' ''api.simplitics.com'' ''/v1'' None)]"

section \<open>URLSearchParams\<close>

text \<open>
  The list of name-value pairs of a \<open>URLSearchParams\<close> object. Names and values are
  strings of the language; the query they are parsed from and serialized to is a
  sequence of bytes.
\<close>

type_synonym params = "(jsstring \<times> jsstring) list"

definition hexValue :: "char \<Rightarrow> nat option" where
  "hexValue c =
     (if isDigit c then Some (charCode c - 48)
      else if charCode CHR ''a'' \<le> charCode c \<and> charCode c \<le> charCode CHR ''f'' then Some (charCode c - 87)
      else if charCode CHR ''A'' \<le> charCode c \<and> charCode c \<le> charCode CHR ''F'' then Some (charCode c - 55)
      else None)"

fun percentDecode :: "string \<Rightarrow> string" where
  "percentDecode (c # h # l # s) =
     (if c = CHR ''%'' then
        (case (hexValue h, hexValue l) of
           (Some a, Some b) \<Rightarrow> char_of (16 * a + b) # percentDecode s
         | _ \<Rightarrow> c # percentDecode (h # l # s))
      else c # percentDecode (h # l # s))"
| "percentDecode s = s"

definition plusToSpace :: "string \<Rightarrow> string" where
  "plusToSpace s = map (\<lambda>c. if c = CHR ''+'' then CHR '' '' else c) s"

text \<open>
  The \<open>application/x-www-form-urlencoded\<close> parser, on the bytes of the query without its
  \<open>?\<close>: a name and a value are percent-decoded and then decoded as UTF-8.
\<close>

definition parsePair :: "string \<Rightarrow> jsstring \<times> jsstring" where
  "parsePair piece =
     (let name = takeWhile (\<lambda>c. c \<noteq> CHR ''='') piece;
          val = drop (Suc (length name)) piece
      in (utf8_decode (bytes_of_chars (percentDecode (plusToSpace name))),
          utf8_decode (bytes_of_chars (percentDecode (plusToSpace val)))))"

definition URLSearchParams :: "string \<Rightarrow> params" where
  "URLSearchParams init =
     (let input = (if init \<noteq> [] \<and> hd init = CHR ''?'' then tl init else init)
      in map parsePair (filter (\<lambda>piece. piece \<noteq> [])
                          (split_str CHR ''&'' (chars_of_bytes (utf8_encode (units_of input))))))"

definition params_delete :: "jsstring \<Rightarrow> params \<Rightarrow> params" where
  "params_delete nm ps = filter (\<lambda>p. fst p \<noteq> nm) ps"

text \<open>The serializer: the UTF-8 bytes of a name or value, byte by byte.\<close>

definition urlencodeByte :: "char \<Rightarrow> string" where
  "urlencodeByte c =
     (if c = CHR '' '' then ''+''
      else if isLower c \<or> isUpper c \<or> isDigit c \<or> c \<in> set ''*-._'' then [c]
      else percentEncode c)"

definition urlencode :: "jsstring \<Rightarrow> string" where
  "urlencode s = concat (map urlencodeByte (chars_of_bytes (utf8_encode s)))"

definition params_toString :: "params \<Rightarrow> string" where
  "params_toString ps = join ''&'' (map (\<lambda>p. urlencode (fst p) @ ''='' @ urlencode (snd p)) ps)"

text \<open>For the proofs: the characters that the serializer writes for a name or a value.\<close>

definition formChar :: "char \<Rightarrow> bool" where
  "formChar c = (isLower c \<or> isUpper c \<or> isDigit c \<or> c \<in> set ''*-._+%'')"

section \<open>Input validation (frontend/src/core/validation.js)\<close>

definition MAX_EVENT_NAME_LENGTH :: nat where
  "MAX_EVENT_NAME_LENGTH = 100"

definition MAX_PROPERTY_VALUE_LENGTH :: nat where
  "MAX_PROPERTY_VALUE_LENGTH = 1000"

definition MAX_PROPERTIES_COUNT :: nat where
  "MAX_PROPERTIES_COUNT = 100"

definition validateEventName :: "jsval \<Rightarrow> error + unit" where
  "validateEventName eventName =
     (if \<not> truthy eventName \<or> typeof eventName \<noteq> ''string''
        then Inl (Error ''Event name must be a non-empty string'')
      else if length (ToString eventName) > MAX_EVENT_NAME_LENGTH
        then Inl (Error ''Event name must not exceed 100 characters'')
      else if \<not> VALID_EVENT_NAME_PATTERN (ToString eventName)
        then Inl (Error ''Event name must contain only letters, numbers, and underscores'')
      else Inr ())"

definition validatePropertyValue :: "string \<Rightarrow> jsval \<Rightarrow> error + unit" where
  "validatePropertyValue key v =
     (if v = JNull \<or> v = JUndefined
        then Inl (Error (''Property '' @ [CHR 0x22] @ key @ [CHR 0x22] @ '' cannot be null or undefined''))
      else if typeof v = ''function''
        then Inl (Error (''Property '' @ [CHR 0x22] @ key @ [CHR 0x22] @ '' cannot be a function''))
      else
        (let stringValue =
               (if typeof v = ''object''
                then (case JSON_stringify v of None \<Rightarrow> ''undefined'' | Some t \<Rightarrow> t)
                else ToString v)
         in if length stringValue > MAX_PROPERTY_VALUE_LENGTH
              then Inl (Error (''Property '' @ [CHR 0x22] @ key @ [CHR 0x22]
                                @ '' value must not exceed 1000 characters''))
            else Inr ()))"

text \<open>The \<open>for ... of Object.entries(properties)\<close> loop: the first failure is thrown.\<close>

fun validateEntries :: "object \<Rightarrow> error + unit" where
  "validateEntries [] = Inr ()"
| "validateEntries (kv # ps) =
     (if \<not> VALID_EVENT_NAME_PATTERN (fst kv)
        then Inl (Error (''Property key '' @ [CHR 0x22] @ fst kv @ [CHR 0x22]
                          @ '' must contain only letters, numbers, and underscores''))
      else (case validatePropertyValue (fst kv) (snd kv) of
              Inl e \<Rightarrow> Inl e
            | Inr _ \<Rightarrow> validateEntries ps))"

text \<open>\<open>Object.entries(v)\<close>: own enumerable properties; indices for arrays and strings.\<close>

fun entries :: "jsval \<Rightarrow> (string \<times> jsval) list" where
  "entries (JObj ps) = ps"
| "entries (JArr xs) = zip (map decimal [0..<length xs]) xs"
| "entries (JStr s) = zip (map decimal [0..<length s]) (map (\<lambda>c. JStr [c]) s)"
| "entries v = []"

definition validateProperties :: "jsval \<Rightarrow> error + unit" where
  "validateProperties properties =
     (if \<not> truthy properties \<or> typeof properties \<noteq> ''object'' \<or> isArray properties
        then Inl (Error ''Properties must be a non-null object'')
      else if length (entries properties) > MAX_PROPERTIES_COUNT
        then Inl (Error ''Properties count must not exceed 100'')
      else validateEntries (entries properties))"

text \<open>
  The body of the \<open>try\<close> block of \<open>validateConfig\<close>: it throws when the endpoint does not
  parse, and when the protocol does not start with \<open>https\<close>.
\<close>

definition endpoint_try :: "url_parser \<Rightarrow> jsval \<Rightarrow> error + unit" where
  "endpoint_try URL endpoint =
     (case URL (ToString endpoint) of
        None \<Rightarrow> Inl TypeError
      | Some u \<Rightarrow>
          if \<not> startsWith (protocol u) ''https''
            then Inl (Error ''API endpoint must use HTTPS'')
          else Inr ())"

text \<open>The \<open>forEach\<close> over the boolean flags.\<close>

fun validateFlags :: "jsval \<Rightarrow> string list \<Rightarrow> error + unit" where
  "validateFlags config [] = Inr ()"
| "validateFlags config (flag # flags) =
     (if isIn flag config \<and> typeof (getMember config flag) \<noteq> ''boolean''
        then Inl (Error (flag @ '' must be a boolean value''))
      else validateFlags config flags)"

definition validateConfig :: "url_parser \<Rightarrow> jsval \<Rightarrow> error + unit" where
  "validateConfig URL config =
     (if \<not> truthy config \<or> typeof config \<noteq> ''object''
        then Inl (Error ''Configuration must be a non-null object'')
      else if \<not> truthy (getMember config ''siteId'') \<or> typeof (getMember config ''siteId'') \<noteq> ''string''
        then Inl (Error ''siteId is required and must be a string'')
      else
        (case (if truthy (getMember config ''endpoint'')
               then (case endpoint_try URL (getMember config ''endpoint'') of
                       Inl e \<Rightarrow> Inl (Error ''Invalid API endpoint URL'')
                     | Inr _ \<Rightarrow> Inr ())
               else Inr ()) of
           Inl e \<Rightarrow> Inl e
         | Inr _ \<Rightarrow> validateFlags config [''consentRequired'', ''hashUserIds'', ''automaticPageViews'']))"

section \<open>BaseAnalytics (the class in frontend/src/core/base.js)\<close>

text \<open>
  The event object \<open>track\<close> builds. The timestamp (\<open>new Date().toISOString()\<close>) and the
  page URL (\<open>getCurrentUrl()\<close>) come from the environment and are arguments of \<open>track\<close>.
\<close>

record tracked =
  t_type :: string
  t_properties :: jsval
  t_timestamp :: string
  t_url :: string

text \<open>A \<open>fetch\<close> call: the URL, the \<open>X-Site-ID\<close> header and the event in the body.\<close>

record request =
  r_url :: string
  r_siteId :: string
  r_body :: tracked

text \<open>
  The instance fields, with the two pieces of the environment the class touches: the
  \<open>simplitics_consent\<close> item of \<open>localStorage\<close> and the list of \<open>fetch\<close> calls issued.
\<close>

record analytics =
  config_endpoint :: jsval
  config_siteId :: jsval
  config_consentRequired :: jsval
  initialized :: bool
  queue :: "tracked list"
  hasConsent :: bool
  simplitics_consent :: "string option"
  fetched :: "request list"

text \<open>
  The constructor (\<open>config = {}\<close> when the argument is \<open>undefined\<close>). \<open>...config\<close> is
  spread last, so a \<open>consentRequired\<close> key of the caller wins over the default; the
  endpoint has been defaulted before the spread.
\<close>

definition BaseAnalytics :: "url_parser \<Rightarrow> jsval \<Rightarrow> string option \<Rightarrow> error + analytics" where
  "BaseAnalytics URL config0 stored =
     (let config = (if config0 = JUndefined then JObj [] else config0) in
      case validateConfig URL config of
        Inl e \<Rightarrow> Inl e
      | Inr _ \<Rightarrow>
          (let endpoint = (if truthy (getMember config ''endpoint'') then getMember config ''endpoint''
                           else JStr ''https://api.simplitics.com/v1'');
               consentRequired = (if isIn ''consentRequired'' config then getMember config ''consentRequired''
                                  else JBool True)
           in Inr \<lparr>config_endpoint = endpoint,
                    config_siteId = getMember config ''siteId'',
                    config_consentRequired = consentRequired,
                    initialized = False,
                    queue = [],
                    hasConsent = (\<not> truthy consentRequired \<or> stored = Some ''true''),
                    simplitics_consent = stored,
                    fetched = []\<rparr>))"

text \<open>
  \<open>sendEvent\<close>, up to the \<open>fetch\<close> call it issues: what the response is changes nothing
  in the instance (a failure is logged). A \<open>TypeError\<close> of \<open>new URL\<close> rejects the promise.
\<close>

definition sendEvent :: "url_parser \<Rightarrow> tracked \<Rightarrow> analytics \<Rightarrow> (error + unit) \<times> analytics" where
  "sendEvent URL ev a =
     (if \<not> truthy (config_endpoint a) \<or> \<not> truthy (config_siteId a) then (Inr (), a)
      else (case URL (ToString (config_endpoint a)) of
              None \<Rightarrow> (Inl TypeError, a)
            | Some endpoint \<Rightarrow>
                if \<not> startsWith (protocol endpoint) ''https'' then (Inr (), a)
                else (Inr (), a\<lparr>fetched := fetched a @
                        [\<lparr>r_url = ToString (config_endpoint a) @ ''/events'',
                          r_siteId = ToString (config_siteId a),
                          r_body = ev\<rparr>]\<rparr>)))"

text \<open>\<open>events.map(event => this.sendEvent(event))\<close>: every call is started, in order.\<close>

fun sendAll :: "url_parser \<Rightarrow> tracked list \<Rightarrow> analytics \<Rightarrow> (error + unit) \<times> analytics" where
  "sendAll URL [] a = (Inr (), a)"
| "sendAll URL (ev # evs) a =
     (let (r, a') = sendEvent URL ev a; (rs, a'') = sendAll URL evs a'
      in (case r of Inl e \<Rightarrow> (Inl e, a'') | Inr _ \<Rightarrow> (rs, a'')))"

definition processQueue :: "url_parser \<Rightarrow> analytics \<Rightarrow> (error + unit) \<times> analytics" where
  "processQueue URL a =
     (if \<not> hasConsent a \<or> \<not> initialized a then (Inr (), a)
      else (let events = queue a in sendAll URL events (a\<lparr>queue := []\<rparr>)))"

text \<open>\<open>init\<close> and \<open>enableTracking\<close> call \<open>processQueue\<close> without awaiting it.\<close>

definition init :: "url_parser \<Rightarrow> analytics \<Rightarrow> analytics" where
  "init URL a = (if initialized a then a else snd (processQueue URL (a\<lparr>initialized := True\<rparr>)))"

definition enableTracking :: "url_parser \<Rightarrow> analytics \<Rightarrow> analytics" where
  "enableTracking URL a =
     snd (processQueue URL (a\<lparr>hasConsent := True, simplitics_consent := Some ''true''\<rparr>))"

definition disableTracking :: "analytics \<Rightarrow> analytics" where
  "disableTracking a = a\<lparr>hasConsent := False, simplitics_consent := Some ''false''\<rparr>"

definition track ::
  "url_parser \<Rightarrow> string \<Rightarrow> string \<Rightarrow> jsval \<Rightarrow> jsval \<Rightarrow> analytics \<Rightarrow> (error + tracked) \<times> analytics" where
  "track URL now currentUrl eventName properties0 a =
     (let properties = (if properties0 = JUndefined then JObj [] else properties0) in
      case validateEventName eventName of
        Inl e \<Rightarrow> (Inl e, a)
      | Inr _ \<Rightarrow>
          (case validateProperties properties of
             Inl e \<Rightarrow> (Inl e, a)
           | Inr _ \<Rightarrow>
               (let ev = \<lparr>t_type = ToString eventName, t_properties = properties,
                          t_timestamp = now, t_url = currentUrl\<rparr>
                in if \<not> hasConsent a \<or> \<not> initialized a
                     then (Inr ev, a\<lparr>queue := queue a @ [ev]\<rparr>)
                   else (case sendEvent URL ev a of
                           (Inl e, a') \<Rightarrow> (Inl e, a')
                         | (Inr _, a') \<Rightarrow> (Inr ev, a')))))"

text \<open>The calls a page can make on an instance.\<close>

datatype call = Init | EnableTracking | DisableTracking | ProcessQueue | Track string string jsval jsval

fun perform :: "url_parser \<Rightarrow> call \<Rightarrow> analytics \<Rightarrow> analytics" where
  "perform URL Init a = init URL a"
| "perform URL EnableTracking a = enableTracking URL a"
| "perform URL DisableTracking a = disableTracking a"
| "perform URL ProcessQueue a = snd (processQueue URL a)"
| "perform URL (Track now currentUrl eventName properties) a =
     snd (track URL now currentUrl eventName properties a)"

text \<open>
  An instance as the constructor's validation leaves it: endpoint and \<open>siteId\<close> are set
  and the endpoint parses to a URL whose protocol starts with \<open>https\<close>, so \<open>sendEvent\<close>
  reaches its \<open>fetch\<close>.
\<close>

definition configured :: "url_parser \<Rightarrow> analytics \<Rightarrow> bool" where
  "configured URL a =
     (truthy (config_endpoint a) \<and> truthy (config_siteId a) \<and>
      (case URL (ToString (config_endpoint a)) of
         None \<Rightarrow> False
       | Some u \<Rightarrow> startsWith (protocol u) ''https''))"

definition request_for :: "analytics \<Rightarrow> tracked \<Rightarrow> request" where
  "request_for a ev =
     \<lparr>r_url = ToString (config_endpoint a) @ ''/events'',
      r_siteId = ToString (config_siteId a),
      r_body = ev\<rparr>"

text \<open>An instance of the test suite, for the examples.\<close>

definition ex_config :: jsval where
  "ex_config = JObj [(''endpoint'', JStr ''https://test-api.simplitics.com''), (''siteId'', JStr ''test-site'')]"

definition ex_event :: "string \<Rightarrow> tracked" where
  "ex_event n = \<lparr>t_type = n, t_properties = JObj [(''value'', JNum 123)],
                 t_timestamp = ''2025-02-08T00:00:00.000Z'', t_url = ''https://localhost''\<rparr>"

definition ex_instance :: "bool \<Rightarrow> tracked list \<Rightarrow> analytics" where
  "ex_instance i q =
     \<lparr>config_endpoint = JStr ''https://test-api.simplitics.com'', config_siteId = JStr ''test-site'',
      config_consentRequired = JBool True, initialized = i, queue = q, hasConsent = False,
      simplitics_consent = None, fetched = []\<rparr>"

section \<open>SHA-256 (the platform's digest, FIPS 180-4)\<close>

type_synonym u32 = "32 word"

text \<open>The 64 round constants, in eight rows of eight.\<close>

definition K256 :: "u32 list" where
  "K256 = concat
    [[0x428a2f98, 0x71374491, 0xb5c0fbcf, 0xe9b5dba5, 0x3956c25b, 0x59f111f1, 0x923f82a4, 0xab1c5ed5],
     [0xd807aa98, 0x12835b01, 0x243185be, 0x550c7dc3, 0x72be5d74, 0x80deb1fe, 0x9bdc06a7, 0xc19bf174],
     [0xe49b69c1, 0xefbe4786, 0x0fc19dc6, 0x240ca1cc, 0x2de92c6f, 0x4a7484aa, 0x5cb0a9dc, 0x76f988da],
     [0x983e5152, 0xa831c66d, 0xb00327c8, 0xbf597fc7, 0xc6e00bf3, 0xd5a79147, 0x06ca6351, 0x14292967],
     [0x27b70a85, 0x2e1b2138, 0x4d2c6dfc, 0x53380d13, 0x650a7354, 0x766a0abb, 0x81c2c92e, 0x92722c85],
     [0xa2bfe8a1, 0xa81a664b, 0xc24b8b70, 0xc76c51a3, 0xd192e819, 0xd6990624, 0xf40e3585, 0x106aa070],
     [0x19a4c116, 0x1e376c08, 0x2748774c, 0x34b0bcb5, 0x391c0cb3, 0x4ed8aa4a, 0x5b9cca4f, 0x682e6ff3],
     [0x748f82ee, 0x78a5636f, 0x84c87814, 0x8cc70208, 0x90befffa, 0xa4506ceb, 0xbef9a3f7, 0xc67178f2]]"

definition H0 :: "u32 list" where
  "H0 = [0x6a09e667, 0xbb67ae85, 0x3c6ef372, 0xa54ff53a,
         0x510e527f, 0x9b05688c, 0x1f83d9ab, 0x5be0cd19]"

definition rotr :: "nat \<Rightarrow> u32 \<Rightarrow> u32" where
  "rotr n x = drop_bit n x OR push_bit (32 - n) x"

definition Ch :: "u32 \<Rightarrow> u32 \<Rightarrow> u32 \<Rightarrow> u32" where
  "Ch x y z = (x AND y) XOR (NOT x AND z)"

definition Maj :: "u32 \<Rightarrow> u32 \<Rightarrow> u32 \<Rightarrow> u32" where
  "Maj x y z = (x AND y) XOR (x AND z) XOR (y AND z)"

definition Sigma0 :: "u32 \<Rightarrow> u32" where
  "Sigma0 x = rotr 2 x XOR rotr 13 x XOR rotr 22 x"

definition Sigma1 :: "u32 \<Rightarrow> u32" where
  "Sigma1 x = rotr 6 x XOR rotr 11 x XOR rotr 25 x"

definition sigma0 :: "u32 \<Rightarrow> u32" where
  "sigma0 x = rotr 7 x XOR rotr 18 x XOR drop_bit 3 x"

definition sigma1 :: "u32 \<Rightarrow> u32" where
  "sigma1 x = rotr 17 x XOR rotr 19 x XOR drop_bit 10 x"

text \<open>
  The message schedule, newest word first: from the 16 words of a block (reversed),
  \<open>schedule 48\<close> computes the words 16 to 63.
\<close>

fun schedule :: "nat \<Rightarrow> u32 list \<Rightarrow> u32 list" where
  "schedule 0 w = w"
| "schedule (Suc n) w =
     schedule n ((sigma1 (w ! 1) + w ! 6 + sigma0 (w ! 14) + w ! 15) # w)"

fun round256 :: "u32 list \<Rightarrow> u32 \<times> u32 \<Rightarrow> u32 list" where
  "round256 [a, b, c, d, e, f, g, h] (k, w) =
     (let T1 = h + Sigma1 e + Ch e f g + k + w;
          T2 = Sigma0 a + Maj a b c
      in [T1 + T2, a, b, c, d + T1, e, f, g])"
| "round256 s kw = s"

definition compress :: "u32 list \<Rightarrow> u32 list \<Rightarrow> u32 list" where
  "compress hs block =
     map2 (+) hs (foldl round256 hs (zip K256 (rev (schedule 48 (rev block)))))"

fun be32 :: "byte list \<Rightarrow> u32 list" where
  "be32 (a # b # c # d # r) =
     (push_bit 24 (ucast a) OR push_bit 16 (ucast b) OR push_bit 8 (ucast c) OR ucast d) # be32 r"
| "be32 r = []"

fun chunks :: "nat \<Rightarrow> u32 list \<Rightarrow> u32 list list" where
  "chunks 0 ws = []"
| "chunks (Suc n) ws = take 16 ws # chunks n (drop 16 ws)"

text \<open>Padding: the bit \<open>1\<close>, zeros, and the message length in bits as 64 bits, big-endian.\<close>

definition pad :: "byte list \<Rightarrow> byte list" where
  "pad m =
     (let l = length m; k = (55 + 64 - l mod 64) mod 64
      in m @ [0x80] @ replicate k 0 @
         map (\<lambda>i. ucast (drop_bit (8 * i) (word_of_nat (8 * l) :: 64 word))) [7, 6, 5, 4, 3, 2, 1, 0])"

definition word_bytes :: "u32 \<Rightarrow> byte list" where
  "word_bytes w = [ucast (drop_bit 24 w), ucast (drop_bit 16 w), ucast (drop_bit 8 w), ucast w]"

definition sha256 :: "byte list \<Rightarrow> byte list" where
  "sha256 m =
     (let ws = be32 (pad m)
      in concat (map word_bytes (foldl compress H0 (chunks (length ws div 16) ws))))"

text \<open>The hexadecimal rendering of a byte, two digits each.\<close>

definition byteHex :: "byte \<Rightarrow> string" where
  "byteHex b = [hexDigit (unat b div 16), hexDigit (unat b)]"

definition toHex :: "byte list \<Rightarrow> string" where
  "toHex bs = concat (map byteHex bs)"

definition isLowerHex :: "char \<Rightarrow> bool" where
  "isLowerHex c = (c \<in> set ''0123456789abcdef'')"

section \<open>PrivacyEnhancer (the class in frontend/src/privacy/index.js)\<close>

record privacy =
  hashUserIds :: jsval

text \<open>
  The constructor: \<open>{ hashUserIds: config.hashUserIds ?? true, ...config }\<close>. The spread
  comes last, so a \<open>hashUserIds\<close> key of the caller wins, whatever its value.
\<close>

definition PrivacyEnhancer :: "jsval \<Rightarrow> error + privacy" where
  "PrivacyEnhancer config0 =
     (let config = (if config0 = JUndefined then JObj [] else config0)
      in if config = JNull then Inl TypeError
         else Inr \<lparr>hashUserIds = (if isIn ''hashUserIds'' config then getMember config ''hashUserIds''
                                   else JBool True)\<rparr>)"

text \<open>
  \<open>hashValue\<close>: SHA-256 of the UTF-8 encoding, in lowercase hex. \<open>TextEncoder.encode\<close>
  takes \<open>undefined\<close> as the empty string and any other value through \<open>ToString\<close>.
\<close>

definition hashValue :: "jsval \<Rightarrow> string" where
  "hashValue v = toHex (sha256 (utf8_encode (units_of (if v = JUndefined then [] else ToString v))))"

definition piiFields :: "string list" where
  "piiFields = [''email'', ''phone'', ''name'', ''address'', ''ip'', ''password'', ''ssn'']"

definition sensitiveIds :: "string list" where
  "sensitiveIds = [''userId'', ''customerId'', ''accountId'']"

definition trackingParams :: "string list" where
  "trackingParams = [''utm_source'', ''utm_medium'', ''utm_campaign'', ''utm_term'', ''utm_content'']"

definition hashField :: "string \<Rightarrow> object \<Rightarrow> object" where
  "hashField field sanitized =
     (if truthy (getProp sanitized field)
      then setProp field (JStr (hashValue (getProp sanitized field))) sanitized
      else sanitized)"

text \<open>\<open>String.prototype.replace(/\/$/, '')\<close>: one slash at the very end is removed.\<close>

definition removeTrailingSlash :: "string \<Rightarrow> string" where
  "removeTrailingSlash s = (if s \<noteq> [] \<and> last s = CHR ''/'' then butlast s else s)"

text \<open>The \<open>try\<close> block that cleans the \<open>url\<close> property; the \<open>catch\<close> keeps the original.\<close>

definition cleanUrl :: "url_parser \<Rightarrow> object \<Rightarrow> object" where
  "cleanUrl URL sanitized =
     (case URL (ToString (getProp sanitized ''url'')) of
        None \<Rightarrow> sanitized
      | Some u \<Rightarrow>
          (let params = fold (\<lambda>param. params_delete (units_of param)) trackingParams
                          (URLSearchParams (search u));
               u' = set_search (params_toString params) u
           in setProp ''url'' (JStr (removeTrailingSlash (href u'))) sanitized))"

definition sanitizeProperties :: "url_parser \<Rightarrow> privacy \<Rightarrow> object \<Rightarrow> object" where
  "sanitizeProperties URL this properties =
     (let sanitized = fold deleteProp piiFields properties;
          sanitized = (if truthy (hashUserIds this) then fold hashField sensitiveIds sanitized
                       else sanitized);
          sanitized = fold deleteProp trackingParams sanitized
      in if truthy (getProp sanitized ''url'') then cleanUrl URL sanitized else sanitized)"

section \<open>Encryption helpers (backend/src/utils/encryption.js)\<close>

text \<open>
  AES-256-GCM after NIST SP 800-38D. The block cipher under the process-wide
  \<open>ENCRYPTION_KEY\<close> is a parameter \<open>E\<close> of every function: nothing below depends on
  which permutation of blocks it is. A block is a 128-bit word whose most significant
  byte is the first byte.
\<close>

type_synonym block = "128 word"
type_synonym cipher = "block \<Rightarrow> block"

definition block_of_bytes :: "byte list \<Rightarrow> block" where
  "block_of_bytes bs = foldl (\<lambda>acc b. push_bit 8 acc OR ucast b) 0 (take 16 (bs @ replicate 16 0))"

definition bytes_of_block :: "block \<Rightarrow> byte list" where
  "bytes_of_block w = map (\<lambda>i. ucast (drop_bit (8 * (15 - i)) w)) [0..<16]"

text \<open>The 16-byte blocks of a byte string, the last one padded with zeros.\<close>

fun blocks_of :: "byte list \<Rightarrow> block list" where
  "blocks_of [] = []"
| "blocks_of (b # bs) = block_of_bytes (b # take 15 bs) # blocks_of (drop 15 bs)"

text \<open>Multiplication in the field of 2^128 elements, and GHASH.\<close>

definition gf_step :: "block \<Rightarrow> nat \<Rightarrow> block \<times> block \<Rightarrow> block \<times> block" where
  "gf_step X i ZV =
     (let Z = fst ZV; V = snd ZV
      in (if bit X (127 - i) then Z XOR V else Z,
          if bit V 0 then drop_bit 1 V XOR push_bit 120 0xE1 else drop_bit 1 V))"

definition gf_mult :: "block \<Rightarrow> block \<Rightarrow> block" where
  "gf_mult X Y = fst (fold (gf_step X) [0..<128] (0, Y))"

definition ghash :: "block \<Rightarrow> block list \<Rightarrow> block" where
  "ghash H xs = foldl (\<lambda>Y X. gf_mult (Y XOR X) H) 0 xs"

definition inc32 :: "block \<Rightarrow> block" where
  "inc32 X = (X AND NOT 0xFFFFFFFF) OR ((X + 1) AND 0xFFFFFFFF)"

definition len_block :: "nat \<Rightarrow> nat \<Rightarrow> block" where
  "len_block a c = push_bit 64 (word_of_nat (8 * a)) OR word_of_nat (8 * c)"

definition J0 :: "block \<Rightarrow> byte list \<Rightarrow> block" where
  "J0 H iv =
     (if length iv = 12 then block_of_bytes iv OR 1
      else ghash H (blocks_of iv @ [len_block 0 (length iv)]))"

text \<open>Counter mode: each block of the input is XORed with the encryption of a counter.\<close>

fun gctr :: "cipher \<Rightarrow> block \<Rightarrow> byte list \<Rightarrow> byte list" where
  "gctr E cb [] = []"
| "gctr E cb (b # bs) =
     map2 (XOR) (b # take 15 bs) (bytes_of_block (E cb)) @ gctr E (inc32 cb) (drop 15 bs)"

definition gcm_tag :: "cipher \<Rightarrow> byte list \<Rightarrow> byte list \<Rightarrow> byte list" where
  "gcm_tag E iv ct =
     (let H = E 0;
          S = ghash H (blocks_of ct @ [len_block 0 (length ct)])
      in bytes_of_block (E (J0 H iv) XOR S))"

definition gcm_encrypt :: "cipher \<Rightarrow> byte list \<Rightarrow> byte list \<Rightarrow> byte list \<times> byte list" where
  "gcm_encrypt E iv pt =
     (let ct = gctr E (inc32 (J0 (E 0) iv)) pt
      in (ct, gcm_tag E iv ct))"

text \<open>Decryption releases the plaintext only when the tag matches (\<open>None\<close> otherwise).\<close>

definition gcm_decrypt :: "cipher \<Rightarrow> byte list \<Rightarrow> byte list \<Rightarrow> byte list \<Rightarrow> byte list option" where
  "gcm_decrypt E iv ct tag =
     (if take (length tag) (gcm_tag E iv ct) = tag
      then Some (gctr E (inc32 (J0 (E 0) iv)) ct)
      else None)"

text \<open>
  \<open>Buffer.from(s, 'hex')\<close> decodes pairs of hex digits and stops at the first pair that
  is not hex.
\<close>

fun fromHex :: "string \<Rightarrow> byte list" where
  "fromHex (h # l # s) =
     (case (hexValue h, hexValue l) of
        (Some a, Some b) \<Rightarrow> word_of_nat (16 * a + b) # fromHex s
      | _ \<Rightarrow> [])"
| "fromHex s = []"

text \<open>
  \<open>encrypt\<close>: \<open>null\<close> for a falsy text; otherwise the UTF-8 bytes of the text are
  encrypted, and the result is \<open>iv:authTag:encryptedData\<close> in hex. The 12 random bytes of
  the IV are the argument \<open>iv\<close>.
\<close>

definition encrypt :: "cipher \<Rightarrow> byte list \<Rightarrow> jsstring \<Rightarrow> string option" where
  "encrypt E iv text =
     (if text = [] then None
      else (let (encrypted, authTag) = gcm_encrypt E iv (utf8_encode text)
            in Some (toHex iv @ '':'' @ toHex authTag @ '':'' @ toHex encrypted)))"

text \<open>
  \<open>decrypt\<close>: \<open>null\<close> for a falsy argument. A token with fewer than two colons makes
  \<open>Buffer.from\<close> or \<open>update\<close> throw a \<open>TypeError\<close>, and so does an encrypted part with an odd
  number of characters; an empty IV, a tag of a length GCM does not allow, and a tag
  that does not match make the crypto library throw. The plaintext bytes are decoded
  as UTF-8.
\<close>

definition decrypt :: "cipher \<Rightarrow> string option \<Rightarrow> error + jsstring option" where
  "decrypt E encryptedText =
     (case encryptedText of
        None \<Rightarrow> Inr None
      | Some t \<Rightarrow>
          if t = [] then Inr None
          else (case split_str CHR '':'' t of
                  ivHex # authTagHex # rest \<Rightarrow>
                    (let iv = fromHex ivHex; authTag = fromHex authTagHex
                     in if iv = [] then Inl CryptoError
                        else if length authTag \<notin> set [4, 8, 12, 13, 14, 15, 16] then Inl CryptoError
                        else (case rest of
                                [] \<Rightarrow> Inl TypeError
                              | encrypted # _ \<Rightarrow>
                                  if odd (length encrypted) then Inl TypeError
                                  else (case gcm_decrypt E iv (fromHex encrypted) authTag of
                                          None \<Rightarrow> Inl CryptoError
                                        | Some pt \<Rightarrow> Inr (Some (utf8_decode pt)))))
                | _ \<Rightarrow> Inl TypeError))"

text \<open>\<open>hash\<close>: \<open>null\<close> for a falsy text; otherwise the SHA-256 digest of its UTF-8 bytes, in hex.\<close>

definition hash :: "jsstring \<Rightarrow> string option" where
  "hash text = (if text = [] then None else Some (toHex (sha256 (utf8_encode text))))"

text \<open>
  A block function to instantiate \<open>E\<close> with in the closed examples (the theorems hold
  for every \<open>E\<close>).
\<close>

definition example_cipher :: cipher where
  "example_cipher b = word_rotl 7 b XOR 0x5A"

section \<open>Input sanitization (backend/src/utils/sanitization.js)\<close>

text \<open>The three functions of the validator library that \<open>sanitizeInput\<close> calls.\<close>

definition isSpace :: "char \<Rightarrow> bool" where
  "isSpace c = (charCode c \<in> set [9, 10, 11, 12, 13, 32])"

definition trim :: "string \<Rightarrow> string" where
  "trim s = rev (dropWhile isSpace (rev (dropWhile isSpace s)))"

definition stripLow :: "string \<Rightarrow> string" where
  "stripLow s = filter (\<lambda>c. \<not> (charCode c < 32 \<or> charCode c = 127)) s"

definition escapeChar :: "char \<Rightarrow> string" where
  "escapeChar c =
     (if c = CHR ''&'' then ''&amp;''
      else if c = CHR 0x22 then ''&quot;''
      else if c = CHR 0x27 then ''&#x27;''
      else if c = CHR ''<'' then ''&lt;''
      else if c = CHR ''>'' then ''&gt;''
      else if c = CHR ''/'' then ''&#x2F;''
      else if c = CHR 0x5C then ''&#x5C;''
      else if c = CHR 0x60 then ''&#96;''
      else [c])"

definition escape :: "string \<Rightarrow> string" where
  "escape s = concat (map escapeChar s)"

definition sanitizeString :: "string \<Rightarrow> string" where
  "sanitizeString s = escape (stripLow (trim s))"

text \<open>\<open>Object.fromEntries\<close>: a later entry with the same key overwrites the earlier value.\<close>

definition fromEntries :: "(string \<times> jsval) list \<Rightarrow> object" where
  "fromEntries es = foldl (\<lambda>acc kv. setProp (fst kv) (snd kv) acc) [] es"

fun sanitizeInput :: "jsval \<Rightarrow> jsval"
  and sanitizeItems :: "jsval list \<Rightarrow> jsval list"
  and sanitizeEntries :: "(string \<times> jsval) list \<Rightarrow> (string \<times> jsval) list" where
  "sanitizeInput JNull = JNull"
| "sanitizeInput JUndefined = JUndefined"
| "sanitizeInput (JStr s) = JStr (sanitizeString s)"
| "sanitizeInput (JArr xs) = JArr (sanitizeItems xs)"
| "sanitizeInput (JObj ps) = JObj (fromEntries (sanitizeEntries ps))"
| "sanitizeInput (JBool b) = JBool b"
| "sanitizeInput (JNum n) = JNum n"
| "sanitizeInput (JFun src) = JFun src"
| "sanitizeItems [] = []"
| "sanitizeItems (x # xs) = sanitizeInput x # sanitizeItems xs"
| "sanitizeEntries [] = []"
| "sanitizeEntries (kv # ps) = (sanitizeString (fst kv), sanitizeInput (snd kv)) # sanitizeEntries ps"

section \<open>DatabaseService.storeEvent and the HTTP handlers (src/unnamed/part_011)\<close>

text \<open>The filter of \<open>storeEvent\<close> on property keys.\<close>

definition keepsKey :: "string \<Rightarrow> bool" where
  "keepsKey k =
     (let key = toLowerCase k
      in \<not> includes_str key ''email'' \<and> \<not> includes_str key ''phone'' \<and>
         \<not> includes_str key ''address'' \<and> \<not> includes_str key ''name'')"

text \<open>
  The \<open>properties\<close> object that \<open>storeEvent\<close> writes (as a JSON string), from
  \<open>Object.entries(event.properties || {})\<close>.
\<close>

definition storedProperties :: "jsval \<Rightarrow> object" where
  "storedProperties properties =
     fromEntries (map (\<lambda>kv. (sanitizeString (fst kv), sanitizeInput (snd kv)))
                      (filter (\<lambda>kv. keepsKey (fst kv))
                              (entries (if truthy properties then properties else JObj []))))"

text \<open>
  The argument of \<open>storeEvent\<close>. The session id, the address and the user agent are
  strings or absent; the timestamp is a time value or absent.
\<close>

record event_input =
  i_siteId :: string
  i_type :: jsval
  i_properties :: jsval
  i_ip :: "jsstring option"
  i_userAgent :: "jsstring option"
  i_sessionId :: "jsstring option"
  i_timestamp :: "int option"

text \<open>The random IVs of the three \<open>encrypt\<close> calls of one \<open>storeEvent\<close>.\<close>

record ivs =
  iv_ip :: "byte list"
  iv_userAgent :: "byte list"
  iv_sessionId :: "byte list"

text \<open>\<open>v ? await encrypt(v) : null\<close>.\<close>

definition encryptField :: "cipher \<Rightarrow> byte list \<Rightarrow> jsstring option \<Rightarrow> string option" where
  "encryptField E iv v = (case v of None \<Rightarrow> None | Some s \<Rightarrow> if s = [] then None else encrypt E iv s)"

text \<open>
  \<open>storeEvent\<close>; \<open>prisma.event.create\<close> appends the row, and rejects a \<open>type\<close> that is not a
  string (the column is a required \<open>String\<close>).
\<close>

definition storeEvent :: "cipher \<Rightarrow> ivs \<Rightarrow> int \<Rightarrow> event_input \<Rightarrow> database \<Rightarrow> error + event \<times> database" where
  "storeEvent E iv now ev db =
     (case sanitizeInput (i_type ev) of
        JStr ty \<Rightarrow>
          (let sanitizedEvent =
                 \<lparr>e_siteId = sanitizeString (i_siteId ev),
                  e_type = ty,
                  e_properties = (case JSON_stringify (JObj (storedProperties (i_properties ev))) of
                                    None \<Rightarrow> [] | Some t \<Rightarrow> t),
                  e_timestamp = (case i_timestamp ev of
                                   None \<Rightarrow> now
                                 | Some t \<Rightarrow> if t = 0 then now else t),
                  e_ip = encryptField E (iv_ip iv) (i_ip ev),
                  e_userAgent = encryptField E (iv_userAgent iv) (i_userAgent ev),
                  e_sessionId = encryptField E (iv_sessionId iv) (i_sessionId ev)\<rparr>
           in Inr (sanitizedEvent, db\<lparr>events := events db @ [sanitizedEvent]\<rparr>))
      | _ \<Rightarrow> Inl PrismaValidationError)"

text \<open>
  A \<open>POST /events\<close> request: the headers the handler reads, and the JSON body. A header
  value is a byte string; the session id of the body is any string.
\<close>

record post_request =
  X_Site_ID :: "string option"
  X_Forwarded_For :: "string option"
  X_Real_IP :: "string option"
  User_Agent :: "string option"
  body_type :: jsval
  body_properties :: jsval
  body_sessionId :: "jsstring option"
  body_timestamp :: "int option"

definition orElse :: "string option \<Rightarrow> string option \<Rightarrow> string option" where
  "orElse a b = (case a of None \<Rightarrow> b | Some s \<Rightarrow> if s = [] then b else a)"

text \<open>\<open>v ? await hash(v) : null\<close>, on a string of the language and on a header value.\<close>

definition hashField_opt :: "jsstring option \<Rightarrow> string option" where
  "hashField_opt v = (case v of None \<Rightarrow> None | Some s \<Rightarrow> if s = [] then None else hash s)"

definition hashHeader :: "string option \<Rightarrow> jsstring option" where
  "hashHeader v = map_option units_of (hashField_opt (map_option units_of v))"

definition post_events :: "cipher \<Rightarrow> ivs \<Rightarrow> int \<Rightarrow> post_request \<Rightarrow> database \<Rightarrow> error + event \<times> database" where
  "post_events E iv now req db =
     (case X_Site_ID req of
        None \<Rightarrow> Inl (Error ''Site ID is required'')
      | Some sid \<Rightarrow>
          if sid = [] then Inl (Error ''Site ID is required'')
          else (let ip = orElse (X_Forwarded_For req) (X_Real_IP req);
                    userAgent = User_Agent req
                in storeEvent E iv now
                     \<lparr>i_siteId = sid,
                      i_type = body_type req,
                      i_properties = body_properties req,
                      i_ip = hashHeader ip,
                      i_userAgent = hashHeader userAgent,
                      i_sessionId = body_sessionId req,
                      i_timestamp = body_timestamp req\<rparr> db))"

text \<open>
  A \<open>where\<close> object of \<open>deleteMany\<close>: field names with the values they must equal. Prisma
  rejects a field name that the \<open>Event\<close> model does not have.
\<close>

type_synonym where_clause = "(string \<times> string option) list"

definition event_field :: "string \<Rightarrow> event \<Rightarrow> string option option" where
  "event_field f e =
     (if f = ''siteId'' then Some (Some (e_siteId e))
      else if f = ''type'' then Some (Some (e_type e))
      else if f = ''properties'' then Some (Some (e_properties e))
      else if f = ''ip'' then Some (e_ip e)
      else if f = ''userAgent'' then Some (e_userAgent e)
      else if f = ''sessionId'' then Some (e_sessionId e)
      else None)"

definition where_valid :: "where_clause \<Rightarrow> bool" where
  "where_valid w = list_all (\<lambda>fv. fst fv \<in> set [''siteId'', ''type'', ''properties'', ''ip'', ''userAgent'', ''sessionId'']) w"

definition where_matches :: "where_clause \<Rightarrow> event \<Rightarrow> bool" where
  "where_matches w e = list_all (\<lambda>fv. event_field (fst fv) e = Some (snd fv)) w"

definition deleteMany_where :: "where_clause \<Rightarrow> database \<Rightarrow> error + nat \<times> database" where
  "deleteMany_where w db =
     (if \<not> where_valid w then Inl PrismaValidationError
      else (let (count, es) = event_deleteMany (where_matches w) (events db)
            in Inr (count, db\<lparr>events := es\<rparr>)))"

definition isTruthy :: "jsstring option \<Rightarrow> bool" where
  "isTruthy v = (case v of None \<Rightarrow> False | Some s \<Rightarrow> s \<noteq> [])"

text \<open>The \<open>where\<close> object of the \<open>DELETE /events/:siteId\<close> handler, and the handler.\<close>

definition erasure_where :: "string \<Rightarrow> jsstring option \<Rightarrow> jsstring option \<Rightarrow> where_clause" where
  "erasure_where sid userId sessionId =
     [(''siteId'', Some sid)]
     @ (if isTruthy userId then [(''properties.userId'', hashField_opt userId)] else [])
     @ (if isTruthy sessionId then [(''sessionId'', hashField_opt sessionId)] else [])"

definition delete_events :: "string \<Rightarrow> jsstring option \<Rightarrow> jsstring option \<Rightarrow> database \<Rightarrow> error + database" where
  "delete_events sid userId sessionId db =
     (if \<not> isTruthy userId \<and> \<not> isTruthy sessionId
        then Inl (Error ''Either userId or sessionId is required'')
      else (case deleteMany_where (erasure_where sid userId sessionId) db of
              Inl e \<Rightarrow> Inl e
            | Inr r \<Rightarrow> Inr (snd r)))"

text \<open>A request of the integration tests, and three IVs, for the examples.\<close>

definition ex_request :: post_request where
  "ex_request =
     \<lparr>X_Site_ID = Some ''test-site'',
      X_Forwarded_For = Some ''192.168.1.1'',
      X_Real_IP = None,
      User_Agent = Some ''Mozilla/5.0'',
      body_type = JStr ''login'',
      body_properties = JObj [],
      body_sessionId = Some (units_of ''test-session''),
      body_timestamp = None\<rparr>"

definition ex_ivs :: ivs where
  "ex_ivs =
     \<lparr>iv_ip = [1, 2, 3, 4, 5, 6, 7, 8, 9, 10, 11, 12],
      iv_userAgent = [13, 14, 15, 16, 17, 18, 19, 20, 21, 22, 23, 24],
      iv_sessionId = [25, 26, 27, 28, 29, 30, 31, 32, 33, 34, 35, 36]\<rparr>"

definition ex_stored :: event where
  "ex_stored =
     \<lparr>e_siteId = ''test-site'',
      e_type = ''login'',
      e_properties = ''{}'',
      e_timestamp = 1739000000000,
      e_ip = encrypt example_cipher (iv_ip ex_ivs) (units_of (hashValue (JStr ''192.168.1.1''))),
      e_userAgent = encrypt example_cipher (iv_userAgent ex_ivs) (units_of (hashValue (JStr ''Mozilla/5.0''))),
      e_sessionId = encrypt example_cipher (iv_sessionId ex_ivs) (units_of ''test-session'')\<rparr>"

section \<open>UTF-8: proofs\<close>

lemma uint_unit: "0 \<le> n \<Longrightarrow> n < 65536 \<Longrightarrow> uint (word_of_int n :: 16 word) = n"
  by (simp add: uint_word_of_int)

lemma unit_range: "0 \<le> uint (u :: 16 word) \<and> uint u < 65536"
  using unsigned_less [of u, where ?'a = int] by simp

lemma scalars_units:
  assumes "scalar cp"
  shows "scalars (units cp @ r) = cp # scalars r"
proof (cases "cp < 0x10000")
  case True
  then have u: "uint (word_of_int cp :: 16 word) = cp"
    using assms by (intro uint_unit) (auto simp: scalar_def)
  have ns: "\<not> isHigh (word_of_int cp) \<and> \<not> isLow (word_of_int cp)"
    using assms True by (auto simp: isHigh_def isLow_def u scalar_def)
  show ?thesis
    using ns by (cases r) (simp_all add: units_def True u)
next
  case False
  define d where "d = cp - 0x10000"
  define q where "q = d div 0x400"
  define m where "m = d mod 0x400"
  define h :: "16 word" where "h = word_of_int (0xD800 + q)"
  define l :: "16 word" where "l = word_of_int (0xDC00 + m)"
  have d: "0 \<le> d" "d < 0x100000" "cp = 0x10000 + d" using assms False by (auto simp: scalar_def d_def)
  have e: "d = q * 0x400 + m" by (simp add: q_def m_def)
  have m: "0 \<le> m" "m < 0x400" by (simp_all add: m_def)
  have q: "0 \<le> q" "q < 0x400" using d e m by linarith+
  have h: "uint h = 0xD800 + q"
    unfolding h_def using q by (intro uint_unit) simp_all
  have l: "uint l = 0xDC00 + m"
    unfolding l_def using m by (intro uint_unit) simp_all
  have hi: "isHigh h" using q by (simp add: isHigh_def h)
  have lo: "isLow l" using m by (simp add: isLow_def l)
  have "units cp = [h, l]"
    using False unfolding units_def h_def l_def q_def m_def d_def by (simp only: if_False)
  moreover have "scalars ([h, l] @ r) = cp # scalars r"
    using hi lo by (simp add: h l d(3) e)
  ultimately show ?thesis by simp
qed

lemma scalars_concat_units:
  "list_all scalar cps \<Longrightarrow> scalars (concat (map units cps)) = cps"
  by (induction cps) (simp_all add: scalars_units)

lemma scalar_scalars: "list_all scalar (scalars s)"
proof (induction s rule: scalars.induct)
  case 1
  show ?case by simp
next
  case (2 u)
  show ?case using unit_range [of u] by (auto simp: scalar_def isHigh_def isLow_def)
next
  case (3 u v s)
  have "scalar (0x10000 + (uint u - 0xD800) * 0x400 + (uint v - 0xDC00))" if "isHigh u" "isLow v"
    using that by (auto simp: scalar_def isHigh_def isLow_def)
  moreover have "scalar (if isHigh u \<or> isLow u then 0xFFFD else uint u)"
    using unit_range [of u] by (auto simp: scalar_def isHigh_def isLow_def)
  ultimately show ?case using 3 by auto
qed

lemma units_unit: "\<not> isHigh u \<Longrightarrow> \<not> isLow u \<Longrightarrow> units (uint u) = [u]"
  using unit_range [of u] by (simp add: units_def)

lemma units_pair:
  assumes "isHigh u" "isLow v"
  shows "units (0x10000 + (uint u - 0xD800) * 0x400 + (uint v - 0xDC00)) = [u, v]"
proof -
  define a where "a = uint u - 0xD800"
  define b where "b = uint v - 0xDC00"
  have a: "0 \<le> a" "a < 0x400" "uint u = 0xD800 + a" using assms(1) by (auto simp: isHigh_def a_def)
  have b: "0 \<le> b" "b < 0x400" "uint v = 0xDC00 + b" using assms(2) by (auto simp: isLow_def b_def)
  have "(a * 0x400 + b) div 0x400 = a" "(a * 0x400 + b) mod 0x400 = b" using b by auto
  then have "units (0x10000 + a * 0x400 + b) = [word_of_int (uint u), word_of_int (uint v)]"
    using a b by (simp add: units_def)
  then show ?thesis by (simp add: a_def b_def)
qed

lemma toWellFormed_id: "isWellFormed s \<Longrightarrow> toWellFormed s = s"
proof (induction s rule: scalars.induct)
  case 1
  show ?case by (simp add: toWellFormed_def)
next
  case (2 u)
  then show ?case by (simp add: toWellFormed_def units_unit)
next
  case (3 u v s)
  show ?case
  proof (cases "isHigh u")
    case True
    with 3 have lo: "isLow v" and w: "isWellFormed s" by auto
    have ih: "toWellFormed s = s" using 3 True lo w by simp
    have "toWellFormed (u # v # s)
            = units (0x10000 + (uint u - 0xD800) * 0x400 + (uint v - 0xDC00)) @ toWellFormed s"
      using True lo by (simp only: toWellFormed_def scalars.simps simp_thms if_True list.map concat.simps)
    then show ?thesis by (simp only: units_pair [OF True lo] ih) simp
  next
    case False
    with 3 have nl: "\<not> isLow u" and w: "isWellFormed (v # s)" by auto
    have "toWellFormed (v # s) = v # s" using 3 False w by simp
    then show ?thesis using False nl by (simp add: toWellFormed_def units_unit)
  qed
qed

lemma toWellFormed_units:
  "list_all scalar cps \<Longrightarrow> toWellFormed (concat (map units cps)) = concat (map units cps)"
  by (simp add: toWellFormed_def scalars_concat_units)

lemma utf8_decoder_2:
  "2 \<le> a \<Longrightarrow> a < 32 \<Longrightarrow> 0 \<le> b \<Longrightarrow> b < 64 \<Longrightarrow>
     utf8_decoder (0, 0, 0x80, 0xBF) ((0xC0 + a) # (0x80 + b) # r)
       = (a * 64 + b) # utf8_decoder (0, 0, 0x80, 0xBF) r"
  by simp

lemma utf8_decoder_3:
  "0 \<le> a \<Longrightarrow> a < 16 \<Longrightarrow> 0 \<le> b \<Longrightarrow> b < 64 \<Longrightarrow> 0 \<le> c \<Longrightarrow> c < 64 \<Longrightarrow>
     (a = 0 \<longrightarrow> 32 \<le> b) \<Longrightarrow> (a = 13 \<longrightarrow> b < 32) \<Longrightarrow>
     utf8_decoder (0, 0, 0x80, 0xBF) ((0xE0 + a) # (0x80 + b) # (0x80 + c) # r)
       = ((a * 64 + b) * 64 + c) # utf8_decoder (0, 0, 0x80, 0xBF) r"
  by auto

lemma utf8_decoder_4:
  "0 \<le> a \<Longrightarrow> a < 5 \<Longrightarrow> 0 \<le> b \<Longrightarrow> b < 64 \<Longrightarrow> 0 \<le> c \<Longrightarrow> c < 64 \<Longrightarrow> 0 \<le> d \<Longrightarrow> d < 64 \<Longrightarrow>
     (a = 0 \<longrightarrow> 16 \<le> b) \<Longrightarrow> (a = 4 \<longrightarrow> b < 16) \<Longrightarrow>
     utf8_decoder (0, 0, 0x80, 0xBF) ((0xF0 + a) # (0x80 + b) # (0x80 + c) # (0x80 + d) # r)
       = (((a * 64 + b) * 64 + c) * 64 + d) # utf8_decoder (0, 0, 0x80, 0xBF) r"
  by auto

text \<open>The digits of a code point in base 64, which are the payloads of its bytes.\<close>

lemma base64_digits:
  fixes cp :: int
  defines "q1 \<equiv> cp div 64"
  defines "q2 \<equiv> cp div 4096"
  defines "a \<equiv> cp div 262144"
  shows "cp = q1 * 64 + cp mod 64" and "q1 = q2 * 64 + cp div 64 mod 64"
    and "q2 = a * 64 + cp div 4096 mod 64"
proof -
  show "cp = q1 * 64 + cp mod 64" by (simp add: q1_def)
  have "cp div 4096 = cp div 64 div 64" using zdiv_zmult2_eq [of 64 cp 64] by simp
  then show "q1 = q2 * 64 + cp div 64 mod 64" by (simp add: q1_def q2_def)
  have "cp div 262144 = cp div 4096 div 64" using zdiv_zmult2_eq [of 4096 cp 64] by simp
  then show "q2 = a * 64 + cp div 4096 mod 64" by (simp add: q2_def a_def)
qed

lemma utf8_decoder_utf8:
  assumes "scalar cp"
  shows "utf8_decoder (0, 0, 0x80, 0xBF) (utf8 cp @ r) = cp # utf8_decoder (0, 0, 0x80, 0xBF) r"
proof -
  define q1 where "q1 = cp div 64"
  define q2 where "q2 = cp div 4096"
  define a where "a = cp div 262144"
  define b where "b = cp div 4096 mod 64"
  define c where "c = cp div 64 mod 64"
  define d where "d = cp mod 64"
  have e1: "cp = q1 * 64 + d" and e2: "q1 = q2 * 64 + c" and e3: "q2 = a * 64 + b"
    using base64_digits [of cp] by (simp_all add: q1_def q2_def a_def b_def c_def d_def)
  have m: "0 \<le> b" "b < 64" "0 \<le> c" "c < 64" "0 \<le> d" "d < 64"
    by (simp_all add: b_def c_def d_def)
  have nn: "0 \<le> cp" "cp < 0x110000" using assms by (auto simp: scalar_def)
  consider "cp < 0x80" | "0x80 \<le> cp \<and> cp < 0x800" | "0x800 \<le> cp \<and> cp < 0x10000" | "0x10000 \<le> cp"
    by linarith
  then show ?thesis
  proof cases
    case 1
    then show ?thesis by (simp add: utf8_def)
  next
    case 2
    have r: "2 \<le> q1" "q1 < 32" using 2 e1 m by linarith+
    have "utf8 cp = [0xC0 + q1, 0x80 + d]" using 2 by (simp add: utf8_def q1_def d_def)
    then show ?thesis using utf8_decoder_2 [OF r m(5) m(6), of r] by (simp add: e1)
  next
    case 3
    have q2: "0 \<le> q2" "q2 < 16" using 3 e1 e2 m by linarith+
    have lo: "q2 = 0 \<longrightarrow> 32 \<le> c" using 3 e1 e2 m by linarith
    have hi: "q2 = 13 \<longrightarrow> c < 32" using 3 assms e1 e2 m unfolding scalar_def by linarith
    have "utf8 cp = [0xE0 + q2, 0x80 + c, 0x80 + d]"
      using 3 by (simp add: utf8_def q2_def c_def d_def)
    then show ?thesis
      using utf8_decoder_3 [OF q2 m(3) m(4) m(5) m(6) lo hi, of r] by (simp add: e1 e2)
  next
    case 4
    have a: "0 \<le> a" "a < 5" using 4 nn e1 e2 e3 m by linarith+
    have lo: "a = 0 \<longrightarrow> 16 \<le> b" using 4 e1 e2 e3 m by linarith
    have hi: "a = 4 \<longrightarrow> b < 16" using nn e1 e2 e3 m by linarith
    have "utf8 cp = [0xF0 + a, 0x80 + b, 0x80 + c, 0x80 + d]"
      using 4 by (simp add: utf8_def a_def b_def c_def d_def)
    then show ?thesis
      using utf8_decoder_4 [OF a m lo hi, of r] by (simp add: e1 e2 e3)
  qed
qed

lemma utf8_decoder_concat:
  "list_all scalar cps \<Longrightarrow> utf8_decoder (0, 0, 0x80, 0xBF) (concat (map utf8 cps)) = cps"
proof (induction cps)
  case Nil
  show ?case by simp
next
  case (Cons cp cps)
  then show ?case using utf8_decoder_utf8 [of cp "concat (map utf8 cps)"] by simp
qed

lemma utf8_byte:
  assumes "scalar cp" and "b \<in> set (utf8 cp)"
  shows "0 \<le> b \<and> b < 256"
proof -
  define q1 where "q1 = cp div 64"
  define q2 where "q2 = cp div 4096"
  define a where "a = cp div 262144"
  have e: "cp = q1 * 64 + cp mod 64" "q1 = q2 * 64 + cp div 64 mod 64" "q2 = a * 64 + cp div 4096 mod 64"
    using base64_digits [of cp] by (simp_all add: q1_def q2_def a_def)
  have m: "0 \<le> x mod 64 \<and> x mod 64 < 64" for x :: int by simp
  have nn: "0 \<le> cp" "cp < 0x110000" using assms(1) by (auto simp: scalar_def)
  have 1: "cp < 0x800 \<Longrightarrow> 0 \<le> q1 \<and> q1 < 32" using nn e m [of cp] by linarith
  have 2: "cp < 0x10000 \<Longrightarrow> 0 \<le> q2 \<and> q2 < 16" using nn e m [of cp] m [of "cp div 64"] by linarith
  have 3: "0 \<le> a \<and> a < 5" using nn e m [of cp] m [of "cp div 64"] m [of "cp div 4096"] by linarith
  show ?thesis
    using assms(2) nn 1 2 3 m [of cp] m [of "cp div 64"] m [of "cp div 4096"]
    unfolding utf8_def q1_def q2_def a_def by (auto split: if_splits)
qed

lemma uint_bytes:
  assumes "\<forall>b \<in> set bs. 0 \<le> b \<and> b < 256"
  shows "map uint (map word_of_int bs :: byte list) = bs"
  using assms by (induction bs) (simp_all add: uint_word_of_int)

lemma utf8_decode_encode: "utf8_decode (utf8_encode s) = toWellFormed s"
proof -
  have sc: "list_all scalar (scalars s)" by (rule scalar_scalars)
  then have "\<forall>b \<in> set (concat (map utf8 (scalars s))). 0 \<le> b \<and> b < 256"
    using utf8_byte by (fastforce simp: list_all_iff)
  then have "map uint (utf8_encode s) = concat (map utf8 (scalars s))"
    unfolding utf8_encode_def by (rule uint_bytes)
  then show ?thesis
    by (simp add: utf8_decode_def utf8_decoder_concat [OF sc] toWellFormed_def)
qed

lemma pending_ok_0 [simp]: "pending_ok (cp, 0, lo, hi)"
  by (simp add: pending_ok_def)

lemma pending_ok_lead2: "0xC2 \<le> b \<Longrightarrow> b \<le> 0xDF \<Longrightarrow> pending_ok (b - 0xC0, 1, 0x80, 0xBF)"
  by (auto simp: pending_ok_def)

lemma pending_ok_lead3:
  "0xE0 \<le> b \<Longrightarrow> b \<le> 0xEF \<Longrightarrow>
     pending_ok (b - 0xE0, 2, if b = 0xE0 then 0xA0 else 0x80, if b = 0xED then 0x9F else 0xBF)"
  by (auto simp: pending_ok_def)

lemma pending_ok_lead4:
  "0xF0 \<le> b \<Longrightarrow> b \<le> 0xF4 \<Longrightarrow>
     pending_ok (b - 0xF0, 3, if b = 0xF0 then 0x90 else 0x80, if b = 0xF4 then 0x8F else 0xBF)"
  by (auto simp: pending_ok_def)

lemma pending_ok_last:
  "pending_ok (cp, 1, lower, upper) \<Longrightarrow> lower \<le> b \<Longrightarrow> b \<le> upper \<Longrightarrow> scalar (cp * 64 + (b - 0x80))"
  by (auto simp: pending_ok_def scalar_def)

lemma pending_ok_next:
  "pending_ok (cp, needed, lower, upper) \<Longrightarrow> needed \<noteq> 0 \<Longrightarrow> needed \<noteq> 1 \<Longrightarrow> lower \<le> b \<Longrightarrow> b \<le> upper \<Longrightarrow>
     pending_ok (cp * 64 + (b - 0x80), needed - 1, 0x80, 0xBF)"
  by (auto simp: pending_ok_def Let_def split: if_splits)

lemma scalar_FFFD: "scalar 0xFFFD"
  by (simp add: scalar_def)

text \<open>The decoder reads bytes: numbers from 0 to 255.\<close>

lemma scalar_utf8_decoder:
  "pending_ok st \<Longrightarrow> \<forall>b \<in> set bs. 0 \<le> b \<Longrightarrow> list_all scalar (utf8_decoder st bs)"
proof (induction st bs rule: utf8_decoder.induct)
  case (1 cp needed lower upper)
  show ?case by (simp add: scalar_FFFD)
next
  case (2 cp needed lower upper b bs)
  have nb: "0 \<le> b" and nbs: "\<forall>b \<in> set bs. 0 \<le> b" using "2.prems"(2) by simp_all
  show ?case
  proof (cases "needed = 0")
    case True
    have "scalar b" if "b \<le> 0x7F" using that nb by (simp add: scalar_def)
    then show ?thesis
      using 2 True nbs pending_ok_lead2 [of b] pending_ok_lead3 [of b] pending_ok_lead4 [of b]
      by (auto simp: scalar_FFFD)
  next
    case False
    show ?thesis
    proof (cases "lower \<le> b \<and> b \<le> upper")
      case out: False
      then show ?thesis using 2 False by (simp add: scalar_FFFD)
    next
      case True
      show ?thesis
      proof (cases "needed = 1")
        case one: True
        have "scalar (cp * 64 + (b - 0x80))"
          using "2.prems" True one pending_ok_last [of cp lower upper b] by blast
        then show ?thesis using 2 False True one nbs by simp
      next
        case more: False
        have "pending_ok (cp * 64 + (b - 0x80), needed - 1, 0x80, 0xBF)"
          using "2.prems" False more True pending_ok_next [of cp needed lower upper b] by blast
        then show ?thesis using 2 False True more nbs by simp
      qed
    qed
  qed
qed

lemma toWellFormed_utf8_decode: "toWellFormed (utf8_decode bs) = utf8_decode bs"
proof -
  have "\<forall>b \<in> set (map uint bs). 0 \<le> b" by simp
  then have "list_all scalar (utf8_decoder (0, 0, 0x80, 0xBF) (map uint bs))"
    by (intro scalar_utf8_decoder) simp_all
  then show ?thesis
    unfolding utf8_decode_def by (rule toWellFormed_units)
qed

text \<open>Strings of characters: no surrogates, and one byte per character on ASCII.\<close>

lemma int_of_char_range: "0 \<le> (of_char c :: int) \<and> (of_char c :: int) < 256"
proof -
  have "(of_char c :: int) = int (of_char c)" by (simp add: of_nat_of_char)
  then show ?thesis using nat_of_char_less_256 [of c] by simp
qed

lemma uint_of_char: "uint (of_char c :: 16 word) = of_char c"
proof -
  have "(of_char c :: 16 word) = word_of_int (of_char c)"
    by (metis of_int_of_nat_eq of_nat_of_char)
  then show ?thesis using int_of_char_range [of c] by (simp add: uint_unit)
qed

lemma not_surrogate_of_char: "\<not> isHigh (of_char c) \<and> \<not> isLow (of_char c)"
  using int_of_char_range [of c] by (simp add: isHigh_def isLow_def uint_of_char)

lemma scalars_units_of: "scalars (units_of s) = map of_char s"
proof (induction s rule: induct_list012)
  case 1
  show ?case by (simp add: units_of_def)
next
  case (2 c)
  show ?case by (simp add: units_of_def not_surrogate_of_char uint_of_char)
next
  case (3 c d s)
  then show ?case by (simp add: units_of_def not_surrogate_of_char uint_of_char)
qed

lemma toWellFormed_units_of: "toWellFormed (units_of s) = units_of s"
proof -
  have "units (of_char c) = [of_char c]" for c
    using units_unit [of "of_char c :: 16 word"] by (simp add: not_surrogate_of_char uint_of_char)
  then have "concat (map units (map of_char s)) = map of_char s"
    by (induction s) simp_all
  then show ?thesis
    unfolding toWellFormed_def scalars_units_of by (simp add: units_of_def)
qed

section \<open>Retention sweep: proofs\<close>

lemma expired_Nil: "expired now i [] e = False"
  by (simp add: expired_def)

lemma expired_Cons:
  "expired now i (s # ss) e =
     ((e_siteId e = siteId s \<and> e_timestamp e < now i - retentionDays s * 86400000)
      \<or> expired now (Suc i) ss e)"
  unfolding expired_def
  by (auto simp: less_Suc_eq_0_disj)

lemma cutoffs_Cons:
  "(\<forall>j < length (s # ss). cutoff_is_date now i (s # ss) j) =
     (\<bar>now i - retentionDays s * 86400000\<bar> \<le> 8640000000000000
      \<and> (\<forall>j < length ss. cutoff_is_date now (Suc i) ss j))"
  unfolding cutoff_is_date_def
  by (auto simp: less_Suc_eq_0_disj)

lemma Date_Some: "\<bar>tv\<bar> \<le> 8640000000000000 \<Longrightarrow> Date tv = Some tv"
  by (simp add: Date_def)

lemma Date_None: "\<not> \<bar>tv\<bar> \<le> 8640000000000000 \<Longrightarrow> Date tv = None"
  by (simp add: Date_def)

lemma cleanup_step:
  assumes "\<bar>now i - retentionDays s * 86400000\<bar> \<le> 8640000000000000"
  shows "cleanup_loop now i (s # ss) es t =
           cleanup_loop now (Suc i) ss
             (filter (\<lambda>e. \<not> (e_siteId e = siteId s \<and> e_timestamp e < now i - retentionDays s * 86400000)) es)
             (t + length (filter (\<lambda>e. e_siteId e = siteId s \<and> e_timestamp e < now i - retentionDays s * 86400000) es))"
proof -
  have "retentionDays s * 24 * 60 * 60 * 1000 = retentionDays s * 86400000" by simp
  then have "Date (now i - retentionDays s * 24 * 60 * 60 * 1000) = Some (now i - retentionDays s * 86400000)"
    using Date_Some [of "now i - retentionDays s * 86400000", OF assms] by (simp only:)
  then show ?thesis
    by (simp only: cleanup_loop.simps option.case event_deleteMany_def Let_def prod.case)
qed

lemma cleanup_stop:
  assumes "\<not> \<bar>now i - retentionDays s * 86400000\<bar> \<le> 8640000000000000"
  shows "cleanup_loop now i (s # ss) es t = (Inl PrismaValidationError, es)"
proof -
  have "retentionDays s * 24 * 60 * 60 * 1000 = retentionDays s * 86400000" by simp
  then have "Date (now i - retentionDays s * 24 * 60 * 60 * 1000) = None"
    using Date_None [of "now i - retentionDays s * 86400000", OF assms] by (simp only:)
  then show ?thesis by (simp only: cleanup_loop.simps option.case)
qed

lemma count_split:
  "length (filter (\<lambda>e. A e \<or> B e) es) = length (filter A es) + length (filter B (filter (\<lambda>e. \<not> A e) es))"
  by (induction es) auto

lemma cleanup_loop_dates:
  "\<forall>j < length ss. cutoff_is_date now i ss j \<Longrightarrow>
     cleanup_loop now i ss es t =
       (Inr (t + length (filter (expired now i ss) es)), filter (\<lambda>e. \<not> expired now i ss e) es)"
proof (induction ss arbitrary: i es t)
  case Nil
  show ?case by (simp add: expired_Nil)
next
  case (Cons s ss)
  from Cons.prems have d: "\<bar>now i - retentionDays s * 86400000\<bar> \<le> 8640000000000000"
    and r: "\<forall>j < length ss. cutoff_is_date now (Suc i) ss j"
    unfolding cutoffs_Cons by simp_all
  let ?A = "\<lambda>e. e_siteId e = siteId s \<and> e_timestamp e < now i - retentionDays s * 86400000"
  have e: "expired now i (s # ss) = (\<lambda>e. ?A e \<or> expired now (Suc i) ss e)"
    by (rule ext) (rule expired_Cons)
  have c: "length (filter (expired now i (s # ss)) es)
             = length (filter ?A es) + length (filter (expired now (Suc i) ss) (filter (\<lambda>e. \<not> ?A e) es))"
    unfolding e by (rule count_split)
  have f: "filter (\<lambda>e. \<not> expired now (Suc i) ss e) (filter (\<lambda>e. \<not> ?A e) es)
             = filter (\<lambda>e. \<not> expired now i (s # ss) e) es"
    unfolding e by (auto intro!: filter_cong)
  show ?case
    unfolding cleanup_step [of now i s, OF d] Cons.IH [OF r] c f by (simp add: add.assoc)
qed

lemma cleanup_loop_invalid:
  "k < length ss \<Longrightarrow> \<forall>j < k. cutoff_is_date now i ss j \<Longrightarrow> \<not> cutoff_is_date now i ss k \<Longrightarrow>
     cleanup_loop now i ss es t =
       (Inl PrismaValidationError, filter (\<lambda>e. \<not> expired now i (take k ss) e) es)"
proof (induction ss arbitrary: i es t k)
  case Nil
  then show ?case by simp
next
  case (Cons s ss)
  show ?case
  proof (cases k)
    case 0
    with Cons.prems have "\<not> \<bar>now i - retentionDays s * 86400000\<bar> \<le> 8640000000000000"
      by (simp add: cutoff_is_date_def)
    then have "cleanup_loop now i (s # ss) es t = (Inl PrismaValidationError, es)"
      by (rule cleanup_stop [of now i s])
    then show ?thesis by (simp add: 0 expired_Nil)
  next
    case (Suc k')
    have d: "\<bar>now i - retentionDays s * 86400000\<bar> \<le> 8640000000000000"
      using Cons.prems(2) Suc by (auto simp: cutoff_is_date_def)
    have k': "k' < length ss" using Cons.prems(1) Suc by simp
    have v: "\<forall>j < k'. cutoff_is_date now (Suc i) ss j"
    proof (intro allI impI)
      fix j assume "j < k'"
      then have "cutoff_is_date now i (s # ss) (Suc j)" using Cons.prems(2) Suc by simp
      then show "cutoff_is_date now (Suc i) ss j" by (simp add: cutoff_is_date_def)
    qed
    have n: "\<not> cutoff_is_date now (Suc i) ss k'"
      using Cons.prems(3) Suc by (simp add: cutoff_is_date_def)
    let ?A = "\<lambda>e. e_siteId e = siteId s \<and> e_timestamp e < now i - retentionDays s * 86400000"
    have e: "expired now i (s # take k' ss) = (\<lambda>e. ?A e \<or> expired now (Suc i) (take k' ss) e)"
      by (rule ext) (rule expired_Cons)
    have f: "filter (\<lambda>e. \<not> expired now (Suc i) (take k' ss) e) (filter (\<lambda>e. \<not> ?A e) es)
               = filter (\<lambda>e. \<not> expired now i (s # take k' ss) e) es"
      unfolding e by (auto intro!: filter_cong)
    show ?thesis
      unfolding cleanup_step [of now i s, OF d] Cons.IH [OF k' v n] Suc take_Suc_Cons f ..
  qed
qed

lemma cleanupOldEvents_dates:
  assumes "\<forall>j < length (sites db). cutoff_is_date now 0 (sites db) j"
  shows "cleanupOldEvents now db =
           (Inr (length (filter (expired now 0 (sites db)) (events db))),
            db\<lparr>events := filter (\<lambda>e. \<not> expired now 0 (sites db) e) (events db)\<rparr>)"
  by (simp add: cleanupOldEvents_def cleanup_loop_dates [OF assms])

lemma cleanupOldEvents_invalid:
  assumes "k < length (sites db)" "\<forall>j < k. cutoff_is_date now 0 (sites db) j"
    "\<not> cutoff_is_date now 0 (sites db) k"
  shows "cleanupOldEvents now db =
           (Inl PrismaValidationError,
            db\<lparr>events := filter (\<lambda>e. \<not> expired now 0 (take k (sites db)) e) (events db)\<rparr>)"
  by (simp add: cleanupOldEvents_def cleanup_loop_invalid [OF assms])

lemma cleanupOldEvents_again:
  assumes a: "\<forall>j < length (sites db). cutoff_is_date now 0 (sites db) j"
    and b: "\<forall>j < length (sites db). cutoff_is_date now' 0 (sites db) j"
  shows "cleanupOldEvents now' (snd (cleanupOldEvents now db)) =
           (Inr (length (filter (\<lambda>e. expired now' 0 (sites db) e \<and> \<not> expired now 0 (sites db) e) (events db))),
            db\<lparr>events := filter (\<lambda>e. \<not> expired now 0 (sites db) e \<and> \<not> expired now' 0 (sites db) e) (events db)\<rparr>)"
proof -
  let ?db' = "db\<lparr>events := filter (\<lambda>e. \<not> expired now 0 (sites db) e) (events db)\<rparr>"
  have s: "snd (cleanupOldEvents now db) = ?db'"
    by (simp add: cleanupOldEvents_dates [OF a])
  have b': "\<forall>j < length (sites ?db'). cutoff_is_date now' 0 (sites ?db') j"
    using b by simp
  have c: "filter (expired now' 0 (sites db)) (filter (\<lambda>e. \<not> expired now 0 (sites db) e) (events db))
             = filter (\<lambda>e. expired now' 0 (sites db) e \<and> \<not> expired now 0 (sites db) e) (events db)"
    by (auto intro!: filter_cong)
  have c': "filter (\<lambda>e. \<not> expired now' 0 (sites db) e) (filter (\<lambda>e. \<not> expired now 0 (sites db) e) (events db))
             = filter (\<lambda>e. \<not> expired now 0 (sites db) e \<and> \<not> expired now' 0 (sites db) e) (events db)"
    by (auto intro!: filter_cong)
  have "cleanupOldEvents now' ?db' =
          (Inr (length (filter (expired now' 0 (sites db)) (filter (\<lambda>e. \<not> expired now 0 (sites db) e) (events db)))),
           db\<lparr>events := filter (\<lambda>e. \<not> expired now' 0 (sites db) e)
                              (filter (\<lambda>e. \<not> expired now 0 (sites db) e) (events db))\<rparr>)"
    using cleanupOldEvents_dates [OF b'] by simp
  then show ?thesis
    unfolding s c c' .
qed

lemma cleanupOldEvents_same_clock:
  assumes a: "\<forall>j < length (sites db). cutoff_is_date now 0 (sites db) j"
  shows "cleanupOldEvents now (snd (cleanupOldEvents now db)) = (Inr 0, snd (cleanupOldEvents now db))"
proof -
  have "filter (\<lambda>e. expired now 0 (sites db) e \<and> \<not> expired now 0 (sites db) e) (events db) = []"
    by simp
  moreover have "filter (\<lambda>e. \<not> expired now 0 (sites db) e \<and> \<not> expired now 0 (sites db) e) (events db)
      = filter (\<lambda>e. \<not> expired now 0 (sites db) e) (events db)"
    by (auto intro!: filter_cong)
  ultimately show ?thesis
    unfolding cleanupOldEvents_again [OF a a]
    by (simp add: cleanupOldEvents_dates [OF a])
qed

lemma sweep_example:
  assumes "0 \<le> t" "t \<le> t'" "t' < t + 29 * 86400000" "t' \<le> 8640000000000000"
  shows "cleanupOldEvents (\<lambda>i. t)
           \<lparr>sites = [\<lparr>siteId = ''test-site'', name = ''Test'', domain = None, settings = ''{}'',
                      apiKey = ''k'', retentionDays = 30\<rparr>],
            events = [ex_event_at ''old_event'' (t - 40 * 86400000),
                      ex_event_at ''new_event'' (t - 1 * 86400000)]\<rparr>
         = (Inr 1,
            \<lparr>sites = [\<lparr>siteId = ''test-site'', name = ''Test'', domain = None, settings = ''{}'',
                       apiKey = ''k'', retentionDays = 30\<rparr>],
             events = [ex_event_at ''new_event'' (t - 1 * 86400000)]\<rparr>)"
    and "cleanupOldEvents (\<lambda>i. t')
           \<lparr>sites = [\<lparr>siteId = ''test-site'', name = ''Test'', domain = None, settings = ''{}'',
                      apiKey = ''k'', retentionDays = 30\<rparr>],
            events = [ex_event_at ''new_event'' (t - 1 * 86400000)]\<rparr>
         = (Inr 0,
            \<lparr>sites = [\<lparr>siteId = ''test-site'', name = ''Test'', domain = None, settings = ''{}'',
                       apiKey = ''k'', retentionDays = 30\<rparr>],
             events = [ex_event_at ''new_event'' (t - 1 * 86400000)]\<rparr>)"
  using assms
  by (simp_all add: cleanupOldEvents_def Date_def event_deleteMany_def ex_event_at_def)

text \<open>
  C9 (as amended). When every cutoff (that iteration's \<open>Date.now()\<close> minus
  \<open>retentionDays\<close> times 86400000 ms) is a date, the sweep removes exactly the events that
  some site of their \<open>siteId\<close> puts strictly before its cutoff, and returns how many they
  were. At the first site whose cutoff is not a date the sweep is rejected, with the
  deletions of the earlier sites done. A second sweep, which reads the clock again,
  removes exactly the events that its cutoffs catch and the first sweep's did not: none
  when the readings are the same. With \<open>retentionDays = 30\<close>, an event 40 days old goes, an
  event one day old stays, and a second sweep less than 29 days later removes nothing.
\<close>

theorem C9_retention_sweep:
  "((\<forall>j < length (sites db). cutoff_is_date now 0 (sites db) j) \<longrightarrow>
      cleanupOldEvents now db =
        (Inr (length (filter (expired now 0 (sites db)) (events db))),
         db\<lparr>events := filter (\<lambda>e. \<not> expired now 0 (sites db) e) (events db)\<rparr>))
   \<and> (k < length (sites db) \<and> (\<forall>j < k. cutoff_is_date now 0 (sites db) j)
        \<and> \<not> cutoff_is_date now 0 (sites db) k \<longrightarrow>
      cleanupOldEvents now db =
        (Inl PrismaValidationError,
         db\<lparr>events := filter (\<lambda>e. \<not> expired now 0 (take k (sites db)) e) (events db)\<rparr>))
   \<and> ((\<forall>j < length (sites db). cutoff_is_date now 0 (sites db) j)
        \<and> (\<forall>j < length (sites db). cutoff_is_date now' 0 (sites db) j) \<longrightarrow>
      cleanupOldEvents now' (snd (cleanupOldEvents now db)) =
        (Inr (length (filter (\<lambda>e. expired now' 0 (sites db) e \<and> \<not> expired now 0 (sites db) e) (events db))),
         db\<lparr>events := filter (\<lambda>e. \<not> expired now 0 (sites db) e \<and> \<not> expired now' 0 (sites db) e)
                            (events db)\<rparr>))
   \<and> ((\<forall>j < length (sites db). cutoff_is_date now 0 (sites db) j) \<longrightarrow>
      cleanupOldEvents now (snd (cleanupOldEvents now db)) = (Inr 0, snd (cleanupOldEvents now db)))
   \<and> (0 \<le> t \<and> t \<le> t' \<and> t' < t + 29 * 86400000 \<and> t' \<le> 8640000000000000 \<longrightarrow>
      cleanupOldEvents (\<lambda>i. t)
          \<lparr>sites = [\<lparr>siteId = ''test-site'', name = ''Test'', domain = None, settings = ''{}'',
                     apiKey = ''k'', retentionDays = 30\<rparr>],
           events = [ex_event_at ''old_event'' (t - 40 * 86400000),
                     ex_event_at ''new_event'' (t - 1 * 86400000)]\<rparr>
        = (Inr 1,
           \<lparr>sites = [\<lparr>siteId = ''test-site'', name = ''Test'', domain = None, settings = ''{}'',
                      apiKey = ''k'', retentionDays = 30\<rparr>],
            events = [ex_event_at ''new_event'' (t - 1 * 86400000)]\<rparr>)
      \<and> cleanupOldEvents (\<lambda>i. t')
          \<lparr>sites = [\<lparr>siteId = ''test-site'', name = ''Test'', domain = None, settings = ''{}'',
                     apiKey = ''k'', retentionDays = 30\<rparr>],
           events = [ex_event_at ''new_event'' (t - 1 * 86400000)]\<rparr>
        = (Inr 0,
           \<lparr>sites = [\<lparr>siteId = ''test-site'', name = ''Test'', domain = None, settings = ''{}'',
                      apiKey = ''k'', retentionDays = 30\<rparr>],
            events = [ex_event_at ''new_event'' (t - 1 * 86400000)]\<rparr>))"
proof (intro conjI impI)
  assume "\<forall>j < length (sites db). cutoff_is_date now 0 (sites db) j"
  then show "cleanupOldEvents now db =
        (Inr (length (filter (expired now 0 (sites db)) (events db))),
         db\<lparr>events := filter (\<lambda>e. \<not> expired now 0 (sites db) e) (events db)\<rparr>)"
    by (rule cleanupOldEvents_dates)
next
  assume "k < length (sites db) \<and> (\<forall>j < k. cutoff_is_date now 0 (sites db) j)
        \<and> \<not> cutoff_is_date now 0 (sites db) k"
  then show "cleanupOldEvents now db =
        (Inl PrismaValidationError,
         db\<lparr>events := filter (\<lambda>e. \<not> expired now 0 (take k (sites db)) e) (events db)\<rparr>)"
    by (intro cleanupOldEvents_invalid) simp_all
next
  assume "(\<forall>j < length (sites db). cutoff_is_date now 0 (sites db) j)
        \<and> (\<forall>j < length (sites db). cutoff_is_date now' 0 (sites db) j)"
  then show "cleanupOldEvents now' (snd (cleanupOldEvents now db)) =
        (Inr (length (filter (\<lambda>e. expired now' 0 (sites db) e \<and> \<not> expired now 0 (sites db) e) (events db))),
         db\<lparr>events := filter (\<lambda>e. \<not> expired now 0 (sites db) e \<and> \<not> expired now' 0 (sites db) e)
                            (events db)\<rparr>)"
    by (intro cleanupOldEvents_again) simp_all
next
  assume "\<forall>j < length (sites db). cutoff_is_date now 0 (sites db) j"
  then show "cleanupOldEvents now (snd (cleanupOldEvents now db)) = (Inr 0, snd (cleanupOldEvents now db))"
    by (rule cleanupOldEvents_same_clock)
next
  assume a: "0 \<le> t \<and> t \<le> t' \<and> t' < t + 29 * 86400000 \<and> t' \<le> 8640000000000000"
  then show "cleanupOldEvents (\<lambda>i. t)
          \<lparr>sites = [\<lparr>siteId = ''test-site'', name = ''Test'', domain = None, settings = ''{}'',
                     apiKey = ''k'', retentionDays = 30\<rparr>],
           events = [ex_event_at ''old_event'' (t - 40 * 86400000),
                     ex_event_at ''new_event'' (t - 1 * 86400000)]\<rparr>
        = (Inr 1,
           \<lparr>sites = [\<lparr>siteId = ''test-site'', name = ''Test'', domain = None, settings = ''{}'',
                      apiKey = ''k'', retentionDays = 30\<rparr>],
            events = [ex_event_at ''new_event'' (t - 1 * 86400000)]\<rparr>)"
    by (intro sweep_example(1) [of t t']) simp_all
  from a show "cleanupOldEvents (\<lambda>i. t')
          \<lparr>sites = [\<lparr>siteId = ''test-site'', name = ''Test'', domain = None, settings = ''{}'',
                     apiKey = ''k'', retentionDays = 30\<rparr>],
           events = [ex_event_at ''new_event'' (t - 1 * 86400000)]\<rparr>
        = (Inr 0,
           \<lparr>sites = [\<lparr>siteId = ''test-site'', name = ''Test'', domain = None, settings = ''{}'',
                      apiKey = ''k'', retentionDays = 30\<rparr>],
            events = [ex_event_at ''new_event'' (t - 1 * 86400000)]\<rparr>)"
    by (intro sweep_example(2) [of t t']) simp_all
qed

theorem C9_witness:
  "cleanupOldEvents (\<lambda>i. 1739000000000)
      \<lparr>sites = [\<lparr>siteId = ''test-site'', name = ''Test'', domain = None, settings = ''{}'',
                 apiKey = ''k'', retentionDays = 30\<rparr>],
       events = [ex_event_at ''old_event'' 1735544000000, ex_event_at ''new_event'' 1738913600000]\<rparr>
     = (Inr 1,
        \<lparr>sites = [\<lparr>siteId = ''test-site'', name = ''Test'', domain = None, settings = ''{}'',
                   apiKey = ''k'', retentionDays = 30\<rparr>],
         events = [ex_event_at ''new_event'' 1738913600000]\<rparr>)
   \<and> cleanupOldEvents (\<lambda>i. 1739000060000)
      \<lparr>sites = [\<lparr>siteId = ''test-site'', name = ''Test'', domain = None, settings = ''{}'',
                 apiKey = ''k'', retentionDays = 30\<rparr>],
       events = [ex_event_at ''new_event'' 1738913600000]\<rparr>
     = (Inr 0,
        \<lparr>sites = [\<lparr>siteId = ''test-site'', name = ''Test'', domain = None, settings = ''{}'',
                   apiKey = ''k'', retentionDays = 30\<rparr>],
         events = [ex_event_at ''new_event'' 1738913600000]\<rparr>)
   \<and> cleanupOldEvents (\<lambda>i. 1739000000000)
      \<lparr>sites = [\<lparr>siteId = ''test-site'', name = ''Test'', domain = None, settings = ''{}'',
                 apiKey = ''k'', retentionDays = - 200000000\<rparr>],
       events = [ex_event_at ''old_event'' 1735544000000]\<rparr>
     = (Inl PrismaValidationError,
        \<lparr>sites = [\<lparr>siteId = ''test-site'', name = ''Test'', domain = None, settings = ''{}'',
                   apiKey = ''k'', retentionDays = - 200000000\<rparr>],
         events = [ex_event_at ''old_event'' 1735544000000]\<rparr>)"
  using C9_retention_sweep [of
      "\<lparr>sites = [\<lparr>siteId = ''test-site'', name = ''Test'', domain = None, settings = ''{}'',
                  apiKey = ''k'', retentionDays = 30\<rparr>],
        events = [ex_event_at ''old_event'' 1735544000000, ex_event_at ''new_event'' 1738913600000]\<rparr>"
      "\<lambda>i. 1739000000000" 0 "\<lambda>i. 1739000060000" 1739000000000 1739000060000]
    C9_retention_sweep [of
      "\<lparr>sites = [\<lparr>siteId = ''test-site'', name = ''Test'', domain = None, settings = ''{}'',
                  apiKey = ''k'', retentionDays = - 200000000\<rparr>],
        events = [ex_event_at ''old_event'' 1735544000000]\<rparr>"
      "\<lambda>i. 1739000000000" 0 "\<lambda>i. 1739000000000" 1739000000000 1739000000000]
  by (simp add: cutoff_is_date_def expired_def)

text \<open>
  The claim as stated fails for the re-run: the second sweep reads the clock again, and
  an event that was exactly at the cutoff of the first sweep (30 days old to the
  millisecond) is removed by a sweep one millisecond later.
\<close>

theorem C9_counterexample:
  "cleanupOldEvents (\<lambda>i. 1739000000000)
      \<lparr>sites = [\<lparr>siteId = ''test-site'', name = ''Test'', domain = None, settings = ''{}'',
                 apiKey = ''k'', retentionDays = 30\<rparr>],
       events = [ex_event_at ''page_view'' (1739000000000 - 30 * 86400000)]\<rparr>
     = (Inr 0,
        \<lparr>sites = [\<lparr>siteId = ''test-site'', name = ''Test'', domain = None, settings = ''{}'',
                   apiKey = ''k'', retentionDays = 30\<rparr>],
         events = [ex_event_at ''page_view'' (1739000000000 - 30 * 86400000)]\<rparr>)
   \<and> cleanupOldEvents (\<lambda>i. 1739000000001)
      \<lparr>sites = [\<lparr>siteId = ''test-site'', name = ''Test'', domain = None, settings = ''{}'',
                 apiKey = ''k'', retentionDays = 30\<rparr>],
       events = [ex_event_at ''page_view'' (1739000000000 - 30 * 86400000)]\<rparr>
     = (Inr 1,
        \<lparr>sites = [\<lparr>siteId = ''test-site'', name = ''Test'', domain = None, settings = ''{}'',
                   apiKey = ''k'', retentionDays = 30\<rparr>],
         events = []\<rparr>)"
  by (simp add: cleanupOldEvents_def Date_def event_deleteMany_def ex_event_at_def)

section \<open>Configuration validation: proofs\<close>

lemma validateFlags_errors:
  "validateFlags config [''consentRequired'', ''hashUserIds'', ''automaticPageViews'']
     \<noteq> Inl (Error ''API endpoint must use HTTPS'')"
  by simp

lemma validateConfig_never_https_error:
  "validateConfig URL config \<noteq> Inl (Error ''API endpoint must use HTTPS'')"
  unfolding validateConfig_def
  using validateFlags_errors [of config]
  by (auto split: sum.splits if_splits)

lemma validateConfig_non_https:
  assumes "truthy config" "typeof config = ''object''"
    and "truthy (getMember config ''siteId'')" "typeof (getMember config ''siteId'') = ''string''"
    and "truthy (getMember config ''endpoint'')"
    and "URL (ToString (getMember config ''endpoint'')) = Some u"
    and "\<not> startsWith (protocol u) ''https''"
  shows "validateConfig URL config = Inl (Error ''Invalid API endpoint URL'')"
  using assms by (simp add: validateConfig_def endpoint_try_def)

lemma BaseAnalytics_error:
  "validateConfig URL config = Inl e \<Longrightarrow> config \<noteq> JUndefined \<Longrightarrow> BaseAnalytics URL config stored = Inl e"
  by (simp add: BaseAnalytics_def)

text \<open>
  C10 (as amended). \<open>validateConfig\<close> and the constructor never throw the message
  "API endpoint must use HTTPS": the \<open>catch\<close> replaces it. For a configuration object
  with a non-empty string \<open>siteId\<close> whose endpoint parses to a URL whose protocol does
  not start with \<open>https\<close>, both throw "Invalid API endpoint URL".
\<close>

theorem C10_https_error_swallowed:
  "validateConfig URL config \<noteq> Inl (Error ''API endpoint must use HTTPS'')
   \<and> BaseAnalytics URL config stored \<noteq> Inl (Error ''API endpoint must use HTTPS'')
   \<and> (truthy config \<and> typeof config = ''object''
        \<and> truthy (getMember config ''siteId'') \<and> typeof (getMember config ''siteId'') = ''string''
        \<and> truthy (getMember config ''endpoint'')
        \<and> URL (ToString (getMember config ''endpoint'')) = Some u
        \<and> \<not> startsWith (protocol u) ''https''
      \<longrightarrow> validateConfig URL config = Inl (Error ''Invalid API endpoint URL'')
        \<and> BaseAnalytics URL config stored = Inl (Error ''Invalid API endpoint URL''))"
proof -
  have a: "validateConfig URL c \<noteq> Inl (Error ''API endpoint must use HTTPS'')" for c
    by (rule validateConfig_never_https_error)
  have b: "BaseAnalytics URL config stored \<noteq> Inl (Error ''API endpoint must use HTTPS'')"
    using a [of "JObj []"] a [of config]
    by (auto simp: BaseAnalytics_def Let_def split: sum.splits)
  have c: "validateConfig URL config = Inl (Error ''Invalid API endpoint URL'')
        \<and> BaseAnalytics URL config stored = Inl (Error ''Invalid API endpoint URL'')"
    if "truthy config" "typeof config = ''object''"
       "truthy (getMember config ''siteId'')" "typeof (getMember config ''siteId'') = ''string''"
       "truthy (getMember config ''endpoint'')"
       "URL (ToString (getMember config ''endpoint'')) = Some u"
       "\<not> startsWith (protocol u) ''https''"
  proof -
    have v: "validateConfig URL config = Inl (Error ''Invalid API endpoint URL'')"
      using that by (rule validateConfig_non_https)
    moreover have "config \<noteq> JUndefined" using that(1) by auto
    ultimately show ?thesis by (simp add: BaseAnalytics_error)
  qed
  show ?thesis using a b c by blast
qed

theorem C10_witness:
  "validateConfig URL_examples
      (JObj [(''siteId'', JStr ''test-site''), (''endpoint'', JStr ''http://api.simplitics.com/v1'')])
     = Inl (Error ''Invalid API endpoint URL'')
   \<and> BaseAnalytics URL_examples
      (JObj [(''siteId'', JStr ''test-site''), (''endpoint'', JStr ''http://api.simplitics.com/v1'')]) None
     = Inl (Error ''Invalid API endpoint URL'')"
  using C10_https_error_swallowed [of URL_examples
      "JObj [(''siteId'', JStr ''test-site''), (''endpoint'', JStr ''http://api.simplitics.com/v1'')]"
      None "http_url ''http'' ''api.simplitics.com'' ''/v1'' None"]
  by (simp add: getProp_def URL_examples_def startsWith_def protocol_def http_url_def)

text \<open>
  The claim as stated fails twice: without a \<open>siteId\<close> the earlier check throws its own
  message, and a protocol such as \<open>httpsx:\<close>, which is not HTTPS, passes the
  \<open>startsWith('https')\<close> test.
\<close>

theorem C10_counterexample:
  "URL_examples ''http://api.simplitics.com/v1'' = Some (http_url ''http'' ''api.simplitics.com'' ''/v1'' None)
   \<and> protocol (http_url ''http'' ''api.simplitics.com'' ''/v1'' None) = ''http:''
   \<and> validateConfig URL_examples (JObj [(''endpoint'', JStr ''http://api.simplitics.com/v1'')])
       = Inl (Error ''siteId is required and must be a string'')
   \<and> URL_examples ''httpsx://api.simplitics.com/v1'' = Some (http_url ''httpsx'' ''api.simplitics.com'' ''/v1'' None)
   \<and> protocol (http_url ''httpsx'' ''api.simplitics.com'' ''/v1'' None) = ''httpsx:''
   \<and> validateConfig URL_examples
        (JObj [(''siteId'', JStr ''test-site''), (''endpoint'', JStr ''httpsx://api.simplitics.com/v1'')])
       = Inr ()"
  by (simp add: validateConfig_def endpoint_try_def getProp_def hasProp_def URL_examples_def
        startsWith_def protocol_def http_url_def)

section \<open>Consent gate and queue: proofs\<close>

lemma sendEvent_configured:
  "configured URL a \<Longrightarrow>
     sendEvent URL ev a = (Inr (), a\<lparr>fetched := fetched a @ [request_for a ev]\<rparr>)"
  by (auto simp: configured_def sendEvent_def request_for_def split: option.splits)

lemma configured_fetched [simp]:
  "configured URL (a\<lparr>fetched := f\<rparr>) = configured URL a"
  by (simp add: configured_def)

lemma request_for_fetched [simp]:
  "request_for (a\<lparr>fetched := f\<rparr>) = request_for a"
  by (simp add: request_for_def fun_eq_iff)

lemma sendAll_configured:
  "configured URL a \<Longrightarrow>
     sendAll URL evs a = (Inr (), a\<lparr>fetched := fetched a @ map (request_for a) evs\<rparr>)"
proof (induction evs arbitrary: a)
  case Nil
  show ?case by simp
next
  case (Cons ev evs)
  have c: "configured URL (a\<lparr>fetched := fetched a @ [request_for a ev]\<rparr>)"
    using Cons.prems by simp
  show ?case
    using Cons.IH [OF c] by (simp add: sendEvent_configured [OF Cons.prems])
qed

lemma sendEvent_hasConsent [simp]:
  "hasConsent (snd (sendEvent URL ev a)) = hasConsent a"
  by (simp add: sendEvent_def split: option.splits)

lemma sendAll_hasConsent [simp]:
  "hasConsent (snd (sendAll URL evs a)) = hasConsent a"
proof (induction evs arbitrary: a)
  case Nil
  show ?case by simp
next
  case (Cons ev evs)
  obtain r a' where s: "sendEvent URL ev a = (r, a')" by (cases "sendEvent URL ev a")
  obtain rs a'' where t: "sendAll URL evs a' = (rs, a'')" by (cases "sendAll URL evs a'")
  have "hasConsent a' = hasConsent a" using sendEvent_hasConsent [of URL ev a] s by simp
  moreover have "hasConsent a'' = hasConsent a'" using Cons.IH [of a'] t by simp
  ultimately show ?case by (simp add: s t split: sum.splits)
qed

lemma sendEvent_hasConsentD:
  "sendEvent URL ev a = (r, a') \<Longrightarrow> hasConsent a' = hasConsent a"
  using sendEvent_hasConsent [of URL ev a] by simp

lemma sent_while_consented:
  "fetched (perform URL c a) = fetched a \<or> hasConsent (perform URL c a)"
proof (cases c)
  case Init
  show ?thesis by (simp add: Init init_def processQueue_def)
next
  case EnableTracking
  show ?thesis by (simp add: EnableTracking enableTracking_def processQueue_def)
next
  case DisableTracking
  show ?thesis by (simp add: DisableTracking disableTracking_def)
next
  case ProcessQueue
  show ?thesis by (simp add: ProcessQueue processQueue_def)
next
  case (Track now currentUrl eventName properties)
  have "hasConsent (snd (track URL now currentUrl eventName properties a)) = hasConsent a"
    by (auto simp: track_def Let_def split: sum.splits prod.splits dest: sendEvent_hasConsentD)
  moreover have "\<not> hasConsent a \<Longrightarrow> fetched (snd (track URL now currentUrl eventName properties a)) = fetched a"
    by (auto simp: track_def Let_def split: sum.splits prod.splits)
  ultimately show ?thesis by (auto simp: Track)
qed

lemma track_queued:
  assumes "\<not> hasConsent a \<or> \<not> initialized a"
    and "validateEventName eventName = Inr ()" and "validateProperties properties = Inr ()"
  shows "track URL now currentUrl eventName properties a =
           (Inr \<lparr>t_type = ToString eventName, t_properties = properties,
                  t_timestamp = now, t_url = currentUrl\<rparr>,
            a\<lparr>queue := queue a @ [\<lparr>t_type = ToString eventName, t_properties = properties,
                                     t_timestamp = now, t_url = currentUrl\<rparr>]\<rparr>)"
proof -
  have "properties \<noteq> JUndefined"
    using assms(3) by (auto simp: validateProperties_def split: if_splits)
  then show ?thesis
    using assms by (auto simp: track_def Let_def)
qed

lemma enableTracking_initialized:
  assumes "configured URL a" and "initialized a"
  shows "enableTracking URL a =
           a\<lparr>hasConsent := True, simplitics_consent := Some ''true'', queue := [],
             fetched := fetched a @ map (request_for a) (queue a)\<rparr>"
proof -
  let ?b = "a\<lparr>hasConsent := True, simplitics_consent := Some ''true'', queue := []\<rparr>"
  have c: "configured URL ?b" using assms(1) by (simp add: configured_def)
  have r: "request_for ?b = request_for a" by (simp add: request_for_def fun_eq_iff)
  show ?thesis
    using sendAll_configured [OF c, of "queue a"] assms(2)
    by (simp add: enableTracking_def processQueue_def r)
qed

lemma enableTracking_uninitialized:
  "\<not> initialized a \<Longrightarrow>
     enableTracking URL a = a\<lparr>hasConsent := True, simplitics_consent := Some ''true''\<rparr>"
  by (simp add: enableTracking_def processQueue_def)

lemma enableTracking_configured:
  "configured URL a \<Longrightarrow>
     enableTracking URL a =
       (if initialized a
        then a\<lparr>hasConsent := True, simplitics_consent := Some ''true'', queue := [],
               fetched := fetched a @ map (request_for a) (queue a)\<rparr>
        else a\<lparr>hasConsent := True, simplitics_consent := Some ''true''\<rparr>)"
  by (simp add: enableTracking_initialized enableTracking_uninitialized)

lemma BaseAnalytics_configured:
  assumes "BaseAnalytics URL config stored = Inr a" and "truthy (getMember config ''endpoint'')"
  shows "configured URL a"
proof -
  have ne: "config \<noteq> JUndefined" using assms(2) by auto
  have v: "validateConfig URL config = Inr ()"
    using assms(1) ne by (auto simp: BaseAnalytics_def Let_def split: sum.splits)
  have s: "truthy (getMember config ''siteId'')"
    using v by (auto simp: validateConfig_def split: if_splits)
  have e: "endpoint_try URL (getMember config ''endpoint'') = Inr ()"
    using v assms(2) by (auto simp: validateConfig_def split: if_splits sum.splits)
  have a: "config_endpoint a = getMember config ''endpoint''" "config_siteId a = getMember config ''siteId''"
    using assms ne by (auto simp: BaseAnalytics_def Let_def split: sum.splits)
  show ?thesis
    using s e assms(2) by (auto simp: configured_def a endpoint_try_def split: option.splits if_splits)
qed

lemma sendEvent_config [simp]:
  "config_endpoint (snd (sendEvent URL ev a)) = config_endpoint a"
  "config_siteId (snd (sendEvent URL ev a)) = config_siteId a"
  by (simp_all add: sendEvent_def split: option.splits)

lemma sendAll_config [simp]:
  "config_endpoint (snd (sendAll URL evs a)) = config_endpoint a
   \<and> config_siteId (snd (sendAll URL evs a)) = config_siteId a"
proof (induction evs arbitrary: a)
  case Nil
  show ?case by simp
next
  case (Cons ev evs)
  obtain r a' where s: "sendEvent URL ev a = (r, a')" by (cases "sendEvent URL ev a")
  obtain rs a'' where t: "sendAll URL evs a' = (rs, a'')" by (cases "sendAll URL evs a'")
  have "config_endpoint a' = config_endpoint a \<and> config_siteId a' = config_siteId a"
    using sendEvent_config [of URL ev a] s by simp
  moreover have "config_endpoint a'' = config_endpoint a' \<and> config_siteId a'' = config_siteId a'"
    using Cons.IH [of a'] t by simp
  ultimately show ?case by (simp add: s t split: sum.splits)
qed

lemma sendEvent_configD:
  "sendEvent URL ev a = (r, a') \<Longrightarrow>
     config_endpoint a' = config_endpoint a \<and> config_siteId a' = config_siteId a"
  using sendEvent_config [of URL ev a] by simp

lemma configured_cong:
  "config_endpoint b = config_endpoint a \<Longrightarrow> config_siteId b = config_siteId a \<Longrightarrow>
     configured URL b = configured URL a"
  by (simp add: configured_def)

lemma perform_config:
  "config_endpoint (perform URL c a) = config_endpoint a
   \<and> config_siteId (perform URL c a) = config_siteId a"
proof (cases c)
  case Init
  show ?thesis using sendAll_config [of URL] by (simp add: Init init_def processQueue_def)
next
  case EnableTracking
  show ?thesis using sendAll_config [of URL] by (simp add: EnableTracking enableTracking_def processQueue_def)
next
  case DisableTracking
  show ?thesis by (simp add: DisableTracking disableTracking_def)
next
  case ProcessQueue
  show ?thesis using sendAll_config [of URL] by (simp add: ProcessQueue processQueue_def)
next
  case (Track now currentUrl eventName properties)
  show ?thesis
    by (auto simp: Track track_def Let_def split: sum.splits prod.splits dest: sendEvent_configD)
qed

lemma perform_configured:
  "configured URL (perform URL c a) = configured URL a"
  using perform_config [of URL c a] by (intro configured_cong) simp_all

lemma fold_perform_configured:
  "configured URL (fold (perform URL) calls a) = configured URL a"
  by (induction calls arbitrary: a) (simp_all add: perform_configured)

text \<open>
  C4 (as amended). In a session without consent a valid event passed to \<open>track\<close> is
  appended to the queue and returned, and nothing is sent. \<open>enableTracking\<close> on an
  initialized session sends every queued event once, in queue order, and empties the
  queue; on a session that \<open>init\<close> has not been called on it only records the consent
  and leaves the queue as it is. No call issues a \<open>fetch\<close> unless the instance has
  consent when the call ends. Every session the constructor makes from a configuration
  with an endpoint is \<open>configured\<close>, and stays so under every call.
\<close>

theorem C4_consent_queue:
  "(\<not> hasConsent a \<and> validateEventName eventName = Inr () \<and> validateProperties properties = Inr ()
      \<longrightarrow> track URL now currentUrl eventName properties a =
           (Inr \<lparr>t_type = ToString eventName, t_properties = properties,
                  t_timestamp = now, t_url = currentUrl\<rparr>,
            a\<lparr>queue := queue a @ [\<lparr>t_type = ToString eventName, t_properties = properties,
                                     t_timestamp = now, t_url = currentUrl\<rparr>]\<rparr>))
   \<and> (configured URL a
      \<longrightarrow> enableTracking URL a =
           (if initialized a
            then a\<lparr>hasConsent := True, simplitics_consent := Some ''true'', queue := [],
                   fetched := fetched a @ map (request_for a) (queue a)\<rparr>
            else a\<lparr>hasConsent := True, simplitics_consent := Some ''true''\<rparr>))
   \<and> (fetched (perform URL c a) = fetched a \<or> hasConsent (perform URL c a))
   \<and> (BaseAnalytics URL config stored = Inr a0 \<and> truthy (getMember config ''endpoint'')
      \<longrightarrow> configured URL (fold (perform URL) calls a0))"
proof (intro conjI impI)
  assume "\<not> hasConsent a \<and> validateEventName eventName = Inr () \<and> validateProperties properties = Inr ()"
  then show "track URL now currentUrl eventName properties a =
           (Inr \<lparr>t_type = ToString eventName, t_properties = properties,
                  t_timestamp = now, t_url = currentUrl\<rparr>,
            a\<lparr>queue := queue a @ [\<lparr>t_type = ToString eventName, t_properties = properties,
                                     t_timestamp = now, t_url = currentUrl\<rparr>]\<rparr>)"
    by (simp add: track_queued)
next
  assume "configured URL a"
  then show "enableTracking URL a =
           (if initialized a
            then a\<lparr>hasConsent := True, simplitics_consent := Some ''true'', queue := [],
                   fetched := fetched a @ map (request_for a) (queue a)\<rparr>
            else a\<lparr>hasConsent := True, simplitics_consent := Some ''true''\<rparr>)"
    by (rule enableTracking_configured)
next
  show "fetched (perform URL c a) = fetched a \<or> hasConsent (perform URL c a)"
    by (rule sent_while_consented)
next
  assume "BaseAnalytics URL config stored = Inr a0 \<and> truthy (getMember config ''endpoint'')"
  then have "configured URL a0"
    using BaseAnalytics_configured [of URL config stored a0] by simp
  then show "configured URL (fold (perform URL) calls a0)"
    by (simp add: fold_perform_configured)
qed

lemma ex_valid:
  "validateEventName (JStr ''event2'') = Inr ()"
  "validateProperties (JObj [(''value'', JNum 123)]) = Inr ()"
  by code_simp+

lemma ex_constructor: "BaseAnalytics URL_examples ex_config None = Inr (ex_instance False [])"
  by code_simp

theorem C4_witness:
  "track URL_examples ''2025-02-08T00:00:00.000Z'' ''https://localhost'' (JStr ''event2'')
       (JObj [(''value'', JNum 123)]) (ex_instance True [ex_event ''event1''])
     = (Inr (ex_event ''event2''), ex_instance True [ex_event ''event1'', ex_event ''event2''])
   \<and> enableTracking URL_examples (ex_instance True [ex_event ''event1''])
     = (ex_instance True [])\<lparr>hasConsent := True, simplitics_consent := Some ''true'',
          fetched := [\<lparr>r_url = ''https://test-api.simplitics.com/events'', r_siteId = ''test-site'',
                       r_body = ex_event ''event1''\<rparr>]\<rparr>
   \<and> configured URL_examples (fold (perform URL_examples) [Init, DisableTracking] (ex_instance False []))"
  using C4_consent_queue [of "ex_instance True [ex_event ''event1'']" "JStr ''event2''"
      "JObj [(''value'', JNum 123)]" URL_examples "''2025-02-08T00:00:00.000Z''" "''https://localhost''"
      Init ex_config None "ex_instance False []" "[Init, DisableTracking]"]
    ex_valid ex_constructor
  by (simp add: ex_instance_def ex_event_def ex_config_def configured_def request_for_def
        URL_examples_def http_url_def startsWith_def protocol_def getProp_def)

text \<open>
  The claim as stated fails on a session that \<open>init\<close> has not been called on: the
  constructor's instance queues the event, and \<open>enableTracking\<close> sends nothing.
\<close>

theorem C4_counterexample:
  "BaseAnalytics URL_examples ex_config None = Inr (ex_instance False [])
   \<and> track URL_examples ''2025-02-08T00:00:00.000Z'' ''https://localhost'' (JStr ''event1'')
       (JObj [(''value'', JNum 123)]) (ex_instance False [])
     = (Inr (ex_event ''event1''), ex_instance False [ex_event ''event1''])
   \<and> enableTracking URL_examples (ex_instance False [ex_event ''event1''])
     = (ex_instance False [ex_event ''event1''])\<lparr>hasConsent := True, simplitics_consent := Some ''true''\<rparr>
   \<and> fetched (enableTracking URL_examples (ex_instance False [ex_event ''event1''])) = []"
  by code_simp

section \<open>Query strings: proofs\<close>

lemma byte_of_char: "(of_char c :: byte) = word_of_int (of_char c)"
  by (metis of_int_of_nat_eq of_nat_of_char)

lemma of_char_char_of_uint: "of_char (char_of (uint b)) = (b :: byte)"
proof -
  have "0 \<le> uint b \<and> uint b < 256" using unsigned_less [of b, where ?'a = int] by simp
  then have "(of_char (char_of (uint b)) :: int) = uint b" by (simp add: of_char_of)
  then show ?thesis by (simp add: byte_of_char)
qed

lemma bytes_of_chars_of_bytes: "bytes_of_chars (chars_of_bytes bs) = bs"
  by (induction bs) (simp_all add: bytes_of_chars_def chars_of_bytes_def of_char_char_of_uint)

lemma ascii_bytes:
  assumes "\<forall>c \<in> set q. charCode c < 128"
  shows "chars_of_bytes (utf8_encode (units_of q)) = q"
proof -
  have i: "(of_char c :: int) = int (charCode c)" for c
    by (simp add: charCode_def of_nat_of_char)
  have u: "utf8 (of_char c) = [of_char c]" if "c \<in> set q" for c
    using assms that by (simp add: utf8_def i)
  have "concat (map utf8 (map of_char q)) = map of_char q"
    using u by (induction q) simp_all
  then have "utf8_encode (units_of q) = map word_of_int (map of_char q)"
    by (simp add: utf8_encode_def scalars_units_of)
  moreover have "char_of (uint (word_of_int (of_char c) :: byte)) = c" for c
    using int_of_char_range [of c] by (simp add: uint_word_of_int)
  ultimately show ?thesis
    by (simp add: chars_of_bytes_def comp_def map_idI)
qed

lemma hexDigitUpper_cases:
  "\<forall>m \<in> set [0..<16]. hexValue (''0123456789ABCDEF'' ! m) = Some m
      \<and> formChar (''0123456789ABCDEF'' ! m) \<and> ''0123456789ABCDEF'' ! m \<noteq> CHR ''+''
      \<and> ''0123456789ABCDEF'' ! m \<noteq> CHR ''%''"
  by code_simp

lemma hexDigitUpper_props:
  "hexValue (hexDigitUpper n) = Some (n mod 16) \<and> formChar (hexDigitUpper n)
   \<and> hexDigitUpper n \<noteq> CHR ''+'' \<and> hexDigitUpper n \<noteq> CHR ''%''"
proof -
  have "n mod 16 \<in> set [0..<16]" by simp
  then show ?thesis
    using hexDigitUpper_cases unfolding hexDigitUpper_def by blast
qed

lemma formChar_percent: "formChar CHR ''%''" "formChar CHR ''+''"
  by (simp_all add: formChar_def)

lemma formChar_urlencodeByte: "list_all formChar (urlencodeByte c)"
  using hexDigitUpper_props [of "charCode c div 16"] hexDigitUpper_props [of "charCode c"]
  by (auto simp: urlencodeByte_def percentEncode_def formChar_def)

lemma formChar_urlencoded: "list_all formChar (concat (map urlencodeByte cs))"
  by (induction cs) (simp_all add: formChar_urlencodeByte)

lemma formChar_urlencode: "list_all formChar (urlencode s)"
  unfolding urlencode_def by (rule formChar_urlencoded)

lemma formChar_range:
  assumes "formChar c"
  shows "37 \<le> charCode c \<and> charCode c \<le> 122 \<and> charCode c \<notin> {38, 39, 60, 61, 62, 63}"
  using assms
  by (auto simp: formChar_def isLower_def isUpper_def isDigit_def charCode_def)

lemma formChar_not:
  assumes "formChar c"
  shows "c \<noteq> CHR ''&''" "c \<noteq> CHR ''=''" "c \<noteq> CHR ''?''" "\<not> in_query_set sp c"
    "c \<noteq> CHR 0x09" "c \<noteq> CHR 0x0A" "c \<noteq> CHR 0x0D" "charCode c < 128"
  using formChar_range [OF assms]
  by (auto simp: in_query_set_def charCode_def)

lemma percentDecode_Cons: "c \<noteq> CHR ''%'' \<Longrightarrow> percentDecode (c # s) = c # percentDecode s"
proof (cases s)
  case Nil
  then show ?thesis by simp
next
  case (Cons h t)
  assume "c \<noteq> CHR ''%''"
  then show ?thesis by (cases t) (simp_all add: Cons)
qed

lemma percentDecode_percentEncode:
  "percentDecode (percentEncode c @ s) = c # percentDecode s"
proof -
  have n: "charCode c < 256" by (simp add: charCode_def)
  then have "charCode c div 16 < 16" by simp
  then have "charCode c div 16 mod 16 = charCode c div 16" by simp
  then have "16 * (charCode c div 16 mod 16) + charCode c mod 16 = charCode c" by simp
  moreover have "char_of (charCode c) = c" by (simp add: charCode_def)
  ultimately show ?thesis
    using hexDigitUpper_props [of "charCode c div 16"] hexDigitUpper_props [of "charCode c"]
    by (simp add: percentEncode_def)
qed

lemma plusToSpace_percentEncode: "plusToSpace (percentEncode c) = percentEncode c"
  using hexDigitUpper_props [of "charCode c div 16"] hexDigitUpper_props [of "charCode c"]
  by (simp add: plusToSpace_def percentEncode_def)

lemma plusToSpace_append: "plusToSpace (a @ b) = plusToSpace a @ plusToSpace b"
  by (simp add: plusToSpace_def)

lemma percentDecode_urlencodeByte:
  "percentDecode (plusToSpace (urlencodeByte c @ s)) = c # percentDecode (plusToSpace s)"
proof (cases "c = CHR '' ''")
  case True
  then show ?thesis
    by (simp add: urlencodeByte_def plusToSpace_def percentDecode_Cons)
next
  case False
  show ?thesis
  proof (cases "isLower c \<or> isUpper c \<or> isDigit c \<or> c \<in> set ''*-._''")
    case True
    then have f: "formChar c" by (auto simp: formChar_def)
    have "c \<noteq> CHR ''+'' \<and> c \<noteq> CHR ''%''"
      using True by (auto simp: isLower_def isUpper_def isDigit_def charCode_def)
    then show ?thesis
      using False True by (simp add: urlencodeByte_def plusToSpace_def percentDecode_Cons)
  next
    case other: False
    have "urlencodeByte c = percentEncode c"
      using False other by (simp add: urlencodeByte_def)
    then show ?thesis
      by (simp add: plusToSpace_append plusToSpace_percentEncode percentDecode_percentEncode)
  qed
qed

lemma percentDecode_urlencoded:
  "percentDecode (plusToSpace (concat (map urlencodeByte cs))) = cs"
proof (induction cs)
  case Nil
  show ?case by (simp add: plusToSpace_def)
next
  case (Cons c cs)
  then show ?case by (simp add: percentDecode_urlencodeByte)
qed

lemma decode_urlencode:
  "utf8_decode (bytes_of_chars (percentDecode (plusToSpace (urlencode s)))) = toWellFormed s"
  by (simp add: urlencode_def percentDecode_urlencoded bytes_of_chars_of_bytes utf8_decode_encode)

lemma urlencode_no_sep: "CHR ''='' \<notin> set (urlencode s)" "CHR ''&'' \<notin> set (urlencode s)"
  using formChar_urlencode [of s] formChar_not(1,2) by (auto simp: list_all_iff)

lemma parsePair_urlencode:
  "parsePair (urlencode n @ CHR ''='' # urlencode v) = (toWellFormed n, toWellFormed v)"
proof -
  have t: "takeWhile (\<lambda>c. c \<noteq> CHR ''='') (urlencode n @ CHR ''='' # urlencode v) = urlencode n"
    using urlencode_no_sep(1) [of n] by (auto simp: takeWhile_tail takeWhile_eq_all_conv)
  show ?thesis
    by (simp add: parsePair_def t decode_urlencode)
qed

lemma wellFormed_parsePair:
  "toWellFormed (fst (parsePair piece)) = fst (parsePair piece)
   \<and> toWellFormed (snd (parsePair piece)) = snd (parsePair piece)"
  by (simp add: parsePair_def Let_def toWellFormed_utf8_decode)

lemma wellFormed_URLSearchParams:
  "p \<in> set (URLSearchParams str) \<Longrightarrow> toWellFormed (fst p) = fst p \<and> toWellFormed (snd p) = snd p"
  using wellFormed_parsePair by (auto simp: URLSearchParams_def Let_def)

lemma split_str_no_sep: "c \<notin> set s \<Longrightarrow> split_str c s = [s]"
  by (induction s) auto

lemma split_str_append: "c \<notin> set a \<Longrightarrow> split_str c (a @ c # r) = a # split_str c r"
  by (induction a) auto

lemma split_join:
  "pieces \<noteq> [] \<Longrightarrow> \<forall>p \<in> set pieces. c \<notin> set p \<Longrightarrow> split_str c (join [c] pieces) = pieces"
proof (induction pieces rule: induct_list012)
  case 1
  then show ?case by simp
next
  case (2 x)
  then show ?case by (simp add: split_str_no_sep)
next
  case (3 x y zs)
  then show ?case by (simp add: split_str_append)
qed

text \<open>The pieces of a serialized query, and the characters it is made of.\<close>

lemma piece_props:
  "CHR ''&'' \<notin> set (urlencode n @ ''='' @ urlencode v) \<and> urlencode n @ ''='' @ urlencode v \<noteq> []
   \<and> list_all (\<lambda>c. formChar c \<or> c = CHR ''='') (urlencode n @ ''='' @ urlencode v)"
  using urlencode_no_sep(2) [of n] urlencode_no_sep(2) [of v] formChar_urlencode [of n] formChar_urlencode [of v]
  by (auto simp: list_all_iff)

lemma join_chars:
  "\<forall>p \<in> set pieces. list_all P p \<Longrightarrow> P c \<Longrightarrow> list_all P (join [c] pieces)"
  by (induction pieces rule: induct_list012) simp_all

lemma params_toString_chars:
  "list_all (\<lambda>c. formChar c \<or> c = CHR ''='' \<or> c = CHR ''&'') (params_toString ps)"
proof -
  have "\<forall>p \<in> set (map (\<lambda>p. urlencode (fst p) @ ''='' @ urlencode (snd p)) ps).
          list_all (\<lambda>c. formChar c \<or> c = CHR ''='' \<or> c = CHR ''&'') p"
    using piece_props by (auto simp: list_all_iff)
  then show ?thesis
    unfolding params_toString_def by (intro join_chars) simp_all
qed

lemma query_char:
  assumes "formChar c \<or> c = CHR ''='' \<or> c = CHR ''&''"
  shows "c \<noteq> CHR ''?''" "\<not> in_query_set sp c" "c \<noteq> CHR 0x09" "c \<noteq> CHR 0x0A" "c \<noteq> CHR 0x0D"
    "charCode c < 128"
proof -
  have "c \<noteq> CHR ''?'' \<and> \<not> in_query_set sp c \<and> c \<noteq> CHR 0x09 \<and> c \<noteq> CHR 0x0A \<and> c \<noteq> CHR 0x0D
        \<and> charCode c < 128"
  proof (cases "formChar c")
    case True
    then show ?thesis using formChar_not [OF True] by simp
  next
    case False
    then have "c = CHR ''='' \<or> c = CHR ''&''" using assms by simp
    then show ?thesis by (auto simp: in_query_set_def charCode_def)
  qed
  then show "c \<noteq> CHR ''?''" "\<not> in_query_set sp c" "c \<noteq> CHR 0x09" "c \<noteq> CHR 0x0A" "c \<noteq> CHR 0x0D"
    "charCode c < 128"
    by simp_all
qed

lemma params_toString_empty: "params_toString ps = [] \<longleftrightarrow> ps = []"
  by (induction ps rule: induct_list012) (simp_all add: params_toString_def)

lemma URLSearchParams_empty: "URLSearchParams [] = []"
  by (simp add: URLSearchParams_def utf8_encode_def units_of_def chars_of_bytes_def)

lemma params_toString_pieces:
  "params_toString ps = join [CHR ''&''] (map (\<lambda>p. urlencode (fst p) @ CHR ''='' # urlencode (snd p)) ps)"
  by (simp add: params_toString_def)

lemma URLSearchParams_toString:
  assumes "ps \<noteq> []"
  shows "URLSearchParams (CHR ''?'' # params_toString ps)
           = map (\<lambda>p. (toWellFormed (fst p), toWellFormed (snd p))) ps"
proof -
  let ?pieces = "map (\<lambda>p. urlencode (fst p) @ CHR ''='' # urlencode (snd p)) ps"
  have a: "\<forall>c \<in> set (params_toString ps). charCode c < 128"
    using params_toString_chars [of ps] query_char(6) by (auto simp: list_all_iff)
  have b: "chars_of_bytes (utf8_encode (units_of (params_toString ps))) = params_toString ps"
    using a by (rule ascii_bytes)
  have ne: "?pieces \<noteq> []" using assms by simp
  have ns: "\<forall>p \<in> set ?pieces. CHR ''&'' \<notin> set p" using piece_props by auto
  have s: "split_str CHR ''&'' (params_toString ps) = ?pieces"
    unfolding params_toString_pieces by (rule split_join [OF ne ns])
  have f: "filter (\<lambda>piece. piece \<noteq> []) ?pieces = ?pieces"
    by (auto simp: filter_id_conv)
  have m: "map parsePair ?pieces = map (\<lambda>p. (toWellFormed (fst p), toWellFormed (snd p))) ps"
    by (simp add: parsePair_urlencode comp_def)
  have "URLSearchParams (CHR ''?'' # params_toString ps)
          = map parsePair (filter (\<lambda>piece. piece \<noteq> [])
              (split_str CHR ''&'' (chars_of_bytes (utf8_encode (units_of (params_toString ps))))))"
    by (simp add: URLSearchParams_def)
  then show ?thesis
    unfolding b s f m .
qed

lemma set_search_params:
  assumes "ps \<noteq> []"
  shows "set_search (params_toString ps) u = u\<lparr>query := Some (params_toString ps)\<rparr>"
proof -
  let ?q = "params_toString ps"
  have ch: "list_all (\<lambda>c. formChar c \<or> c = CHR ''='' \<or> c = CHR ''&'') ?q"
    by (rule params_toString_chars)
  have ne: "?q \<noteq> []" using assms by (simp add: params_toString_empty)
  then have "hd ?q \<in> set ?q" by simp
  then have h: "hd ?q \<noteq> CHR ''?''" using ch query_char(1) by (auto simp: list_all_iff)
  have fl: "filter (\<lambda>c. c \<noteq> CHR 0x09 \<and> c \<noteq> CHR 0x0A \<and> c \<noteq> CHR 0x0D) ?q = ?q"
    using ch query_char(3,4,5) by (auto simp: filter_id_conv list_all_iff)
  have a: "\<forall>c \<in> set ?q. charCode c < 128"
    using ch query_char(6) by (auto simp: list_all_iff)
  have b: "chars_of_bytes (utf8_encode (units_of ?q)) = ?q"
    using a by (rule ascii_bytes)
  have "concat (map (\<lambda>c. if in_query_set sp c then percentEncode c else [c]) q') = q'"
    if "\<forall>c \<in> set q'. \<not> in_query_set sp c" for q' sp
    using that by (induction q') simp_all
  moreover have "\<forall>c \<in> set ?q. \<not> in_query_set sp c" for sp
    using ch query_char(2) by (auto simp: list_all_iff)
  ultimately have e: "concat (map (\<lambda>c. if in_query_set sp c then percentEncode c else [c]) ?q) = ?q" for sp
    by blast
  show ?thesis
    using ne h by (simp add: set_search_def fl b e)
qed

text \<open>
  Writing a list of parsed pairs into the query of a URL and parsing the query again
  gives the same list; the components other than the query stay (an opaque path
  without a fragment may lose trailing spaces when the query becomes empty).
\<close>

lemma search_roundtrip:
  assumes "\<forall>p \<in> set ps. toWellFormed (fst p) = fst p \<and> toWellFormed (snd p) = snd p"
  shows "URLSearchParams (search (set_search (params_toString ps) u)) = ps"
proof (cases "ps = []")
  case True
  then show ?thesis
    by (simp add: params_toString_def set_search_def search_def Let_def URLSearchParams_empty)
next
  case False
  have q: "params_toString ps \<noteq> []" using False by (simp add: params_toString_empty)
  have "search (set_search (params_toString ps) u) = ''?'' @ params_toString ps"
    using q by (simp add: set_search_params [OF False] search_def)
  moreover have "map (\<lambda>p. (toWellFormed (fst p), toWellFormed (snd p))) ps = ps"
    using assms by (induction ps) auto
  ultimately show ?thesis
    by (simp add: URLSearchParams_toString [OF False])
qed

lemma set_search_components:
  "scheme (set_search v u) = scheme u \<and> username (set_search v u) = username u
   \<and> password (set_search v u) = password u \<and> host (set_search v u) = host u
   \<and> port (set_search v u) = port u \<and> fragment (set_search v u) = fragment u
   \<and> opaque_path (set_search v u) = opaque_path u
   \<and> (path (set_search v u) = path u
       \<or> (v = [] \<and> opaque_path u \<and> fragment u = None \<and> path (set_search v u) = dropWhileEnd_space (path u)))"
  by (simp add: set_search_def Let_def)

section \<open>Sanitizer: proofs\<close>

lemma keys_deleteProp: "map fst (deleteProp k ps) = filter (\<lambda>x. x \<noteq> k) (map fst ps)"
  by (induction ps) (auto simp: deleteProp_def)

lemma keys_fold_deleteProp:
  "map fst (fold deleteProp ks ps) = filter (\<lambda>x. x \<notin> set ks) (map fst ps)"
proof (induction ks arbitrary: ps)
  case Nil
  show ?case by simp
next
  case (Cons k ks)
  show ?case
    by (auto simp: Cons.IH keys_deleteProp intro!: filter_cong)
qed

lemma getProp_deleteProp:
  "getProp (deleteProp k ps) k' = (if k' = k then JUndefined else getProp ps k')"
  by (simp add: getProp_def deleteProp_def delete_conv')

lemma getProp_fold_deleteProp:
  "getProp (fold deleteProp ks ps) k' = (if k' \<in> set ks then JUndefined else getProp ps k')"
  by (induction ks arbitrary: ps) (auto simp: getProp_deleteProp)

lemma deleteProp_absent: "k \<notin> fst ` set ps \<Longrightarrow> deleteProp k ps = ps"
  by (induction ps) (auto simp: deleteProp_def)

lemma truthy_hasProp: "truthy (getProp ps k) \<Longrightarrow> hasProp ps k"
  by (force simp: getProp_def hasProp_def split: option.splits dest: map_of_SomeD)

lemma keys_setProp: "hasProp ps k \<Longrightarrow> map fst (setProp k v ps) = map fst ps"
  by (simp add: setProp_def hasProp_def update_keys)

lemma getProp_setProp:
  "getProp (setProp k v ps) k' = (if k' = k then v else getProp ps k')"
  by (simp add: getProp_def setProp_def update_conv')

lemma keys_hashField: "map fst (hashField f s) = map fst s"
  by (simp add: hashField_def keys_setProp truthy_hasProp)

lemma keys_fold_hashField: "map fst (fold hashField fs s) = map fst s"
  by (induction fs arbitrary: s) (simp_all add: keys_hashField)

lemma getProp_hashField_other: "k \<noteq> f \<Longrightarrow> getProp (hashField f s) k = getProp s k"
  by (simp add: hashField_def getProp_setProp)

lemma getProp_fold_hashField_other:
  "k \<notin> set fs \<Longrightarrow> getProp (fold hashField fs s) k = getProp s k"
  by (induction fs arbitrary: s) (simp_all add: getProp_hashField_other)

lemma keys_cleanUrl: "truthy (getProp s ''url'') \<Longrightarrow> map fst (cleanUrl URL s) = map fst s"
  by (simp add: cleanUrl_def Let_def keys_setProp truthy_hasProp split: option.splits)

lemma getProp_cleanUrl_other: "k \<noteq> ''url'' \<Longrightarrow> getProp (cleanUrl URL s) k = getProp s k"
  by (simp add: cleanUrl_def Let_def getProp_setProp split: option.splits)

lemma keys_sanitizeProperties:
  "map fst (sanitizeProperties URL this properties) =
     filter (\<lambda>k. k \<notin> set piiFields \<and> k \<notin> set trackingParams) (map fst properties)"
  by (auto simp: sanitizeProperties_def Let_def keys_cleanUrl keys_fold_deleteProp keys_fold_hashField
        intro!: filter_cong)

lemma fold_params_delete:
  "fold (\<lambda>param. params_delete (units_of param)) ns ps = filter (\<lambda>p. fst p \<notin> units_of ` set ns) ps"
proof (induction ns arbitrary: ps)
  case Nil
  show ?case by simp
next
  case (Cons n ns)
  have "fold (\<lambda>param. params_delete (units_of param)) (n # ns) ps
          = filter (\<lambda>p. fst p \<notin> units_of ` set ns) (params_delete (units_of n) ps)"
    by (simp add: Cons.IH)
  also have "\<dots> = filter (\<lambda>p. fst p \<notin> units_of ` set (n # ns)) ps"
    by (auto simp: params_delete_def intro!: filter_cong)
  finally show ?case .
qed

lemma tracking_names:
  "units_of ` set trackingParams =
     {units_of ''utm_source'', units_of ''utm_medium'', units_of ''utm_campaign'',
      units_of ''utm_term'', units_of ''utm_content''}"
  by (simp add: trackingParams_def)

text \<open>The \<open>url\<close> property as the earlier steps leave it.\<close>

lemma url_before_cleaning:
  "getProp (fold deleteProp trackingParams
      (if truthy (hashUserIds this) then fold hashField sensitiveIds (fold deleteProp piiFields properties)
       else fold deleteProp piiFields properties)) ''url'' = getProp properties ''url''"
proof -
  have u: "''url'' \<notin> set trackingParams" "''url'' \<notin> set sensitiveIds" "''url'' \<notin> set piiFields"
    by (simp_all add: trackingParams_def sensitiveIds_def piiFields_def)
  show ?thesis
    by (simp add: getProp_fold_deleteProp getProp_fold_hashField_other u)
qed

lemma sanitize_url_parsed:
  assumes "truthy (getProp properties ''url'')"
    and "URL (ToString (getProp properties ''url'')) = Some u"
  shows "getProp (sanitizeProperties URL this properties) ''url'' =
     JStr (removeTrailingSlash (href (set_search
        (params_toString (filter (\<lambda>p. fst p \<notin> units_of ` set trackingParams) (URLSearchParams (search u)))) u)))"
  using assms url_before_cleaning [of this properties]
  by (simp add: sanitizeProperties_def Let_def cleanUrl_def getProp_setProp fold_params_delete)

lemma sanitize_url_kept:
  assumes "\<not> truthy (getProp properties ''url'') \<or> URL (ToString (getProp properties ''url'')) = None"
  shows "getProp (sanitizeProperties URL this properties) ''url'' = getProp properties ''url''"
  using assms url_before_cleaning [of this properties]
  by (auto simp: sanitizeProperties_def Let_def cleanUrl_def)

lemma removeTrailingSlash_snoc: "removeTrailingSlash (s @ ''/'') = s"
  by (simp add: removeTrailingSlash_def)

lemma removeTrailingSlash_other: "s = [] \<or> last s \<noteq> CHR ''/'' \<Longrightarrow> removeTrailingSlash s = s"
  by (auto simp: removeTrailingSlash_def)

text \<open>The URL that the cleaning serializes: its query parses to the pairs that were kept.\<close>

lemma cleaned_url:
  fixes u :: url
  defines "kept \<equiv> filter (\<lambda>p. fst p \<notin> units_of ` set trackingParams) (URLSearchParams (search u))"
  defines "u' \<equiv> set_search (params_toString kept) u"
  shows "URLSearchParams (search u') = kept" and "query u' \<noteq> Some []"
proof -
  have w: "\<forall>p \<in> set kept. toWellFormed (fst p) = fst p \<and> toWellFormed (snd p) = snd p"
    using wellFormed_URLSearchParams [of _ "search u"] by (auto simp: kept_def)
  show "URLSearchParams (search u') = kept"
    unfolding u'_def using w by (rule search_roundtrip)
  show "query u' \<noteq> Some []"
  proof (cases "kept = []")
    case True
    then show ?thesis by (simp add: u'_def params_toString_def set_search_def Let_def)
  next
    case False
    then show ?thesis
      by (simp add: u'_def set_search_params [OF False] params_toString_empty)
  qed
qed

lemma sanitize_example_url:
  "sanitizeProperties URL_examples \<lparr>hashUserIds = JBool True\<rparr>
      [(''url'', JStr ''http://example.com?utm_source=test&utm_medium=email&name=john'')]
     = [(''url'', JStr ''http://example.com/?name=john'')]"
  by code_simp

lemma sanitize_example_url_bytes:
  "sanitizeProperties URL_examples \<lparr>hashUserIds = JBool True\<rparr>
      [(''url'', JStr ''http://example.com/?a=%FF&utm_source=x'')]
     = [(''url'', JStr ''http://example.com/?a=%EF%BF%BD'')]"
  by code_simp

lemma sanitize_example_url_fragment:
  "sanitizeProperties URL_examples \<lparr>hashUserIds = JBool True\<rparr>
      [(''url'', JStr ''https://example.com/search?q=caf%C3%A9+au%20lait&utm_term=x&&b#top'')]
     = [(''url'', JStr ''https://example.com/search?q=caf%C3%A9+au+lait&b=#top'')]"
  by code_simp

lemma sanitize_example_url_slash:
  "sanitizeProperties URL_examples \<lparr>hashUserIds = JBool True\<rparr>
      [(''url'', JStr ''https://example.com/page/?utm_campaign=spring'')]
     = [(''url'', JStr ''https://example.com/page'')]"
  by code_simp

text \<open>
  C8. When the \<open>url\<close> property is truthy and parses to \<open>u\<close>, the sanitized \<open>url\<close> is the
  serialization, less one trailing slash, of a URL \<open>u'\<close> whose query parses to the
  name-value pairs of \<open>u\<close> without those named \<open>utm_source\<close>, \<open>utm_medium\<close>,
  \<open>utm_campaign\<close>, \<open>utm_term\<close> or \<open>utm_content\<close>, in their order, and whose other
  components are those of \<open>u\<close> (an opaque path without a fragment may lose trailing
  spaces when no pair is left). A \<open>url\<close> that is falsy or does not parse is kept as it
  is. \<open>removeTrailingSlash\<close> drops exactly one slash at the end and nothing else. The
  example of the specification gives \<open>http://example.com/?name=john\<close>; three more
  examples show the re-encoding of the pairs that stay.
\<close>

theorem C8_url_cleaning:
  "(truthy (getProp properties ''url'') \<and> URL (ToString (getProp properties ''url'')) = Some u
      \<longrightarrow> (\<exists>u'. getProp (sanitizeProperties URL this properties) ''url''
                   = JStr (removeTrailingSlash (href u'))
               \<and> URLSearchParams (search u')
                   = filter (\<lambda>p. fst p \<notin> {units_of ''utm_source'', units_of ''utm_medium'',
                                            units_of ''utm_campaign'', units_of ''utm_term'',
                                            units_of ''utm_content''})
                            (URLSearchParams (search u))
               \<and> query u' \<noteq> Some []
               \<and> scheme u' = scheme u \<and> username u' = username u \<and> password u' = password u
               \<and> host u' = host u \<and> port u' = port u \<and> fragment u' = fragment u
               \<and> opaque_path u' = opaque_path u
               \<and> (path u' = path u
                   \<or> (query u' = None \<and> opaque_path u \<and> fragment u = None
                       \<and> path u' = dropWhileEnd_space (path u)))))
   \<and> (\<not> truthy (getProp properties ''url'') \<or> URL (ToString (getProp properties ''url'')) = None
      \<longrightarrow> getProp (sanitizeProperties URL this properties) ''url'' = getProp properties ''url'')
   \<and> removeTrailingSlash (s @ ''/'') = s
   \<and> (s = [] \<or> last s \<noteq> CHR ''/'' \<longrightarrow> removeTrailingSlash s = s)
   \<and> sanitizeProperties URL_examples \<lparr>hashUserIds = JBool True\<rparr>
        [(''url'', JStr ''http://example.com?utm_source=test&utm_medium=email&name=john'')]
       = [(''url'', JStr ''http://example.com/?name=john'')]
   \<and> sanitizeProperties URL_examples \<lparr>hashUserIds = JBool True\<rparr>
        [(''url'', JStr ''https://example.com/page/?utm_campaign=spring'')]
       = [(''url'', JStr ''https://example.com/page'')]
   \<and> sanitizeProperties URL_examples \<lparr>hashUserIds = JBool True\<rparr>
        [(''url'', JStr ''http://example.com/?a=%FF&utm_source=x'')]
       = [(''url'', JStr ''http://example.com/?a=%EF%BF%BD'')]
   \<and> sanitizeProperties URL_examples \<lparr>hashUserIds = JBool True\<rparr>
        [(''url'', JStr ''https://example.com/search?q=caf%C3%A9+au%20lait&utm_term=x&&b#top'')]
       = [(''url'', JStr ''https://example.com/search?q=caf%C3%A9+au+lait&b=#top'')]"
proof (intro conjI impI)
  assume a: "truthy (getProp properties ''url'') \<and> URL (ToString (getProp properties ''url'')) = Some u"
  define kept where
    "kept = filter (\<lambda>p. fst p \<notin> units_of ` set trackingParams) (URLSearchParams (search u))"
  define u' where "u' = set_search (params_toString kept) u"
  have r: "getProp (sanitizeProperties URL this properties) ''url'' = JStr (removeTrailingSlash (href u'))"
    using a by (simp add: sanitize_url_parsed u'_def kept_def)
  have p: "URLSearchParams (search u')
             = filter (\<lambda>p. fst p \<notin> {units_of ''utm_source'', units_of ''utm_medium'',
                                      units_of ''utm_campaign'', units_of ''utm_term'',
                                      units_of ''utm_content''})
                      (URLSearchParams (search u))"
    using cleaned_url(1) [of u] unfolding u'_def kept_def tracking_names .
  have q: "query u' \<noteq> Some []"
    using cleaned_url(2) [of u] unfolding u'_def kept_def .
  have q': "query u' = None" if "params_toString kept = []"
    using that by (simp add: u'_def set_search_def Let_def)
  have c: "scheme u' = scheme u \<and> username u' = username u \<and> password u' = password u
         \<and> host u' = host u \<and> port u' = port u \<and> fragment u' = fragment u
         \<and> opaque_path u' = opaque_path u
         \<and> (path u' = path u
             \<or> (query u' = None \<and> opaque_path u \<and> fragment u = None
                 \<and> path u' = dropWhileEnd_space (path u)))"
    using set_search_components [of "params_toString kept" u] q' unfolding u'_def [symmetric] by blast
  show "\<exists>u'. getProp (sanitizeProperties URL this properties) ''url''
                   = JStr (removeTrailingSlash (href u'))
               \<and> URLSearchParams (search u')
                   = filter (\<lambda>p. fst p \<notin> {units_of ''utm_source'', units_of ''utm_medium'',
                                            units_of ''utm_campaign'', units_of ''utm_term'',
                                            units_of ''utm_content''})
                            (URLSearchParams (search u))
               \<and> query u' \<noteq> Some []
               \<and> scheme u' = scheme u \<and> username u' = username u \<and> password u' = password u
               \<and> host u' = host u \<and> port u' = port u \<and> fragment u' = fragment u
               \<and> opaque_path u' = opaque_path u
               \<and> (path u' = path u
                   \<or> (query u' = None \<and> opaque_path u \<and> fragment u = None
                       \<and> path u' = dropWhileEnd_space (path u)))"
    using r p q c by (intro exI [of _ u']) (simp only: simp_thms)
next
  assume "\<not> truthy (getProp properties ''url'') \<or> URL (ToString (getProp properties ''url'')) = None"
  then show "getProp (sanitizeProperties URL this properties) ''url'' = getProp properties ''url''"
    by (rule sanitize_url_kept)
next
  show "removeTrailingSlash (s @ ''/'') = s" by (rule removeTrailingSlash_snoc)
next
  assume "s = [] \<or> last s \<noteq> CHR ''/''"
  then show "removeTrailingSlash s = s" by (rule removeTrailingSlash_other)
next
  show "sanitizeProperties URL_examples \<lparr>hashUserIds = JBool True\<rparr>
        [(''url'', JStr ''http://example.com?utm_source=test&utm_medium=email&name=john'')]
       = [(''url'', JStr ''http://example.com/?name=john'')]"
    by (rule sanitize_example_url)
next
  show "sanitizeProperties URL_examples \<lparr>hashUserIds = JBool True\<rparr>
        [(''url'', JStr ''https://example.com/page/?utm_campaign=spring'')]
       = [(''url'', JStr ''https://example.com/page'')]"
    by (rule sanitize_example_url_slash)
next
  show "sanitizeProperties URL_examples \<lparr>hashUserIds = JBool True\<rparr>
        [(''url'', JStr ''http://example.com/?a=%FF&utm_source=x'')]
       = [(''url'', JStr ''http://example.com/?a=%EF%BF%BD'')]"
    by (rule sanitize_example_url_bytes)
next
  show "sanitizeProperties URL_examples \<lparr>hashUserIds = JBool True\<rparr>
        [(''url'', JStr ''https://example.com/search?q=caf%C3%A9+au%20lait&utm_term=x&&b#top'')]
       = [(''url'', JStr ''https://example.com/search?q=caf%C3%A9+au+lait&b=#top'')]"
    by (rule sanitize_example_url_fragment)
qed

lemma example_page_params:
  "filter (\<lambda>p. fst p \<notin> {units_of ''utm_source'', units_of ''utm_medium'',
                          units_of ''utm_campaign'', units_of ''utm_term'', units_of ''utm_content''})
     (URLSearchParams (search (http_url ''http'' ''example.com'' ''/''
          (Some ''utm_source=test&utm_medium=email&name=john''))))
   = [(units_of ''name'', units_of ''john'')]"
  by code_simp

theorem C8_witness:
  "(\<exists>u'. getProp (sanitizeProperties URL_examples \<lparr>hashUserIds = JBool True\<rparr>
              [(''url'', JStr ''http://example.com?utm_source=test&utm_medium=email&name=john'')]) ''url''
            = JStr (removeTrailingSlash (href u'))
        \<and> URLSearchParams (search u') = [(units_of ''name'', units_of ''john'')]
        \<and> scheme u' = ''http'' \<and> host u' = Some ''example.com'' \<and> path u' = ''/'')
   \<and> getProp (sanitizeProperties URL_examples \<lparr>hashUserIds = JBool True\<rparr>
        [(''url'', JStr ''not-a-valid-url'')]) ''url''
     = JStr ''not-a-valid-url''
   \<and> removeTrailingSlash ''http://example.com/'' = ''http://example.com''
   \<and> removeTrailingSlash ''http://example.com'' = ''http://example.com''"
proof -
  let ?u = "http_url ''http'' ''example.com'' ''/'' (Some ''utm_source=test&utm_medium=email&name=john'')"
  have p: "URL_examples ''http://example.com?utm_source=test&utm_medium=email&name=john'' = Some ?u"
    by (simp add: URL_examples_def)
  have n: "URL_examples ''not-a-valid-url'' = None"
    by (simp add: URL_examples_def)
  have c: "scheme ?u = ''http'' \<and> host ?u = Some ''example.com'' \<and> path ?u = ''/'' \<and> \<not> opaque_path ?u"
    by (simp add: http_url_def)
  have a: "\<exists>u'. getProp (sanitizeProperties URL_examples \<lparr>hashUserIds = JBool True\<rparr>
              [(''url'', JStr ''http://example.com?utm_source=test&utm_medium=email&name=john'')]) ''url''
            = JStr (removeTrailingSlash (href u'))
        \<and> URLSearchParams (search u') = [(units_of ''name'', units_of ''john'')]
        \<and> scheme u' = ''http'' \<and> host u' = Some ''example.com'' \<and> path u' = ''/''"
    using C8_url_cleaning [of "[(''url'', JStr ''http://example.com?utm_source=test&utm_medium=email&name=john'')]"
        URL_examples ?u "\<lparr>hashUserIds = JBool True\<rparr>" "''http://example.com''"] p c
    unfolding example_page_params
    by (auto simp: getProp_def)
  have b: "getProp (sanitizeProperties URL_examples \<lparr>hashUserIds = JBool True\<rparr>
      [(''url'', JStr ''not-a-valid-url'')]) ''url'' = JStr ''not-a-valid-url''"
    using C8_url_cleaning [of "[(''url'', JStr ''not-a-valid-url'')]" URL_examples
        "http_url ''https'' ''example.com'' ''/page/'' None"
        "\<lparr>hashUserIds = JBool True\<rparr>" "''http://example.com''"] n
    by (simp add: getProp_def)
  have c: "removeTrailingSlash ''http://example.com/'' = ''http://example.com''
         \<and> removeTrailingSlash ''http://example.com'' = ''http://example.com''"
    using C8_url_cleaning [of "[]" URL_examples "http_url ''https'' ''example.com'' ''/page/'' None"
        "\<lparr>hashUserIds = JBool True\<rparr>" "''http://example.com''"]
    by simp
  show ?thesis using a b c by simp
qed

section \<open>Encryption round trip: proofs\<close>

lemma hexDigit_isLowerHex: "isLowerHex (hexDigit n)"
proof -
  have "n mod 16 < length ''0123456789abcdef''" by simp
  then have "''0123456789abcdef'' ! (n mod 16) \<in> set ''0123456789abcdef''"
    by (rule nth_mem)
  then show ?thesis by (simp only: hexDigit_def isLowerHex_def)
qed

lemma toHex_isLowerHex: "list_all isLowerHex (toHex bs)"
  by (induction bs) (simp_all add: toHex_def byteHex_def hexDigit_isLowerHex)

lemma length_toHex: "length (toHex bs) = 2 * length bs"
  by (induction bs) (simp_all add: toHex_def byteHex_def)

lemma colon_not_hex: "\<not> isLowerHex CHR '':''"
  by (simp add: isLowerHex_def)

lemma toHex_no_colon: "CHR '':'' \<notin> set (toHex bs)"
  using toHex_isLowerHex [of bs] colon_not_hex by (auto simp: list_all_iff)

lemma hexValue_hexDigit: "hexValue (hexDigit n) = Some (n mod 16)"
proof -
  have "n mod 16 \<in> {0..<16}" by simp
  then have "n mod 16 \<in> set [0..<16]" by simp
  then have "\<forall>m \<in> set [0..<16]. hexValue (''0123456789abcdef'' ! m) = Some m \<Longrightarrow> ?thesis"
    unfolding hexDigit_def by blast
  moreover have "\<forall>m \<in> set [0..<16]. hexValue (''0123456789abcdef'' ! m) = Some m"
    by code_simp
  ultimately show ?thesis by blast
qed

lemma fromHex_byteHex: "fromHex (byteHex b @ s) = b # fromHex s"
proof -
  have "unat b < 256" using unsigned_less [of b, where ?'a = nat] by simp
  then have "16 * (unat b div 16 mod 16) + unat b mod 16 = unat b"
    by (simp add: div_mult_mod_eq)
  then have "(word_of_nat (16 * (unat b div 16 mod 16) + unat b mod 16) :: byte) = b"
    by simp
  then show ?thesis
    by (simp add: byteHex_def hexValue_hexDigit)
qed

lemma fromHex_toHex: "fromHex (toHex bs) = bs"
  by (induction bs) (simp_all add: toHex_def fromHex_byteHex)

lemma map2_xor_twice:
  "length xs \<le> length ks \<Longrightarrow> map2 (XOR) (map2 (XOR) xs ks) ks = (xs :: byte list)"
proof (induction xs arbitrary: ks)
  case Nil
  show ?case by simp
next
  case (Cons x xs)
  then obtain k ks' where ks: "ks = k # ks'" by (cases ks) auto
  have "(x XOR k) XOR k = x" by (simp add: xor.assoc)
  then show ?case using Cons by (simp add: ks)
qed

lemma length_bytes_of_block: "length (bytes_of_block w) = 16"
  by (simp add: bytes_of_block_def)

lemma length_gctr: "length (gctr E cb bs) = length bs"
  by (induction E cb bs rule: gctr.induct) (simp_all add: length_bytes_of_block)

lemma gctr_twice: "gctr E cb (gctr E cb bs) = bs"
proof (induction E cb bs rule: gctr.induct)
  case (1 E cb)
  show ?case by simp
next
  case (2 E cb b bs)
  define ks where "ks = bytes_of_block (E cb)"
  have lks: "length ks = 16" by (simp add: ks_def length_bytes_of_block)
  then obtain k ks' where ks: "ks = k # ks'" and lks': "length ks' = 15"
    by (cases ks) auto
  define t where "t = map2 (XOR) (take 15 bs) ks'"
  define rest where "rest = gctr E (inc32 cb) (drop 15 bs)"
  have lt: "length t = min 15 (length bs)" by (simp add: t_def lks')
  have first: "gctr E cb (b # bs) = ((b XOR k) # t) @ rest"
    by (simp add: ks_def [symmetric] ks t_def rest_def)
  have tk: "take 15 (t @ rest) = t \<and> drop 15 (t @ rest) = rest"
  proof (cases "15 \<le> length bs")
    case True
    then have "length t = 15" using lt by simp
    then show ?thesis by simp
  next
    case False
    then have "rest = []" by (simp add: rest_def)
    moreover have "length t < 15" using lt False by simp
    ultimately show ?thesis by simp
  qed
  have inv: "map2 (XOR) ((b XOR k) # t) ks = b # take 15 bs"
  proof -
    have "map2 (XOR) (map2 (XOR) (b # take 15 bs) ks) ks = b # take 15 bs"
      by (rule map2_xor_twice) (simp add: lks)
    then show ?thesis by (simp add: ks t_def)
  qed
  have "gctr E cb (((b XOR k) # t) @ rest)
          = map2 (XOR) ((b XOR k) # t) ks @ gctr E (inc32 cb) rest"
    using tk by (simp add: ks_def [symmetric])
  also have "\<dots> = (b # take 15 bs) @ drop 15 bs"
    using inv "2.IH" by (simp add: rest_def)
  also have "\<dots> = b # bs" by simp
  finally have step: "gctr E cb (((b XOR k) # t) @ rest) = b # bs" .
  show ?case unfolding first by (rule step)
qed

lemma length_gcm_tag: "length (gcm_tag E iv ct) = 16"
  by (simp add: gcm_tag_def Let_def length_bytes_of_block)

lemma gcm_roundtrip:
  "gcm_decrypt E iv (fst (gcm_encrypt E iv pt)) (snd (gcm_encrypt E iv pt)) = Some pt"
  by (simp add: gcm_decrypt_def gcm_encrypt_def Let_def length_gcm_tag gctr_twice)

lemma encrypt_decrypt:
  assumes "text \<noteq> []" and "iv \<noteq> []"
  shows "decrypt E (encrypt E iv text) = Inr (Some (toWellFormed text))"
proof -
  obtain ct tag where g: "gcm_encrypt E iv (utf8_encode text) = (ct, tag)"
    by (cases "gcm_encrypt E iv (utf8_encode text)")
  have tag: "tag = gcm_tag E iv ct" using g by (auto simp: gcm_encrypt_def Let_def)
  have lt: "length tag = 16" by (simp add: tag length_gcm_tag)
  have dec: "gcm_decrypt E iv ct tag = Some (utf8_encode text)"
    using gcm_roundtrip [of E iv "utf8_encode text"] g by simp
  have token: "encrypt E iv text = Some (toHex iv @ CHR '':'' # toHex tag @ CHR '':'' # toHex ct)"
    using assms(1) g by (simp add: encrypt_def)
  have sp: "split_str CHR '':'' (toHex iv @ CHR '':'' # toHex tag @ CHR '':'' # toHex ct)
              = [toHex iv, toHex tag, toHex ct]"
    by (simp add: split_str_append split_str_no_sep toHex_no_colon)
  have ne: "toHex iv @ CHR '':'' # toHex tag @ CHR '':'' # toHex ct \<noteq> []" by simp
  have ev: "\<not> odd (length (toHex ct))" by (simp add: length_toHex)
  show ?thesis
    unfolding token decrypt_def
    using assms(2) dec lt ev
    by (simp only: option.case ne if_False sp list.case Let_def fromHex_toHex) (simp add: utf8_decode_encode)
qed

lemma isWellFormed_lone: "\<not> isWellFormed [0xD800]" "toWellFormed [0xD800] = [0xFFFD]"
  by code_simp+

text \<open>
  C7 (as amended). For every non-empty string and every 12-byte IV, under any block
  cipher, \<open>decrypt(encrypt(s))\<close> returns \<open>s\<close> with U+FFFD in the place of every surrogate
  that has no partner: \<open>s\<close> itself when it is well formed. For the empty string
  \<open>encrypt\<close> returns \<open>null\<close>, and \<open>decrypt(null)\<close> is \<open>null\<close>.
\<close>

theorem C7_round_trip:
  "(text \<noteq> [] \<and> length iv = 12 \<longrightarrow> decrypt E (encrypt E iv text) = Inr (Some (toWellFormed text)))
   \<and> (text \<noteq> [] \<and> isWellFormed text \<and> length iv = 12 \<longrightarrow> decrypt E (encrypt E iv text) = Inr (Some text))
   \<and> decrypt E (encrypt E iv []) = Inr None"
proof (intro conjI impI)
  assume a: "text \<noteq> [] \<and> length iv = 12"
  then have "iv \<noteq> []" by auto
  with a show "decrypt E (encrypt E iv text) = Inr (Some (toWellFormed text))"
    by (simp add: encrypt_decrypt)
next
  assume a: "text \<noteq> [] \<and> isWellFormed text \<and> length iv = 12"
  then have "iv \<noteq> []" by auto
  with a show "decrypt E (encrypt E iv text) = Inr (Some text)"
    by (simp add: encrypt_decrypt toWellFormed_id)
next
  show "decrypt E (encrypt E iv []) = Inr None"
    by (simp add: encrypt_def decrypt_def)
qed

lemma isWellFormed_example: "isWellFormed [0x63, 0x61, 0x66, 0xE9, 0x20, 0xD83D, 0xDE00]"
  by code_simp

theorem C7_witness:
  "decrypt example_cipher
      (encrypt example_cipher [1, 2, 3, 4, 5, 6, 7, 8, 9, 10, 11, 12]
         [0x63, 0x61, 0x66, 0xE9, 0x20, 0xD83D, 0xDE00])
     = Inr (Some [0x63, 0x61, 0x66, 0xE9, 0x20, 0xD83D, 0xDE00])"
  using C7_round_trip [of "[0x63, 0x61, 0x66, 0xE9, 0x20, 0xD83D, 0xDE00]"
      "[1, 2, 3, 4, 5, 6, 7, 8, 9, 10, 11, 12]" example_cipher]
    isWellFormed_example
  by (simp del: isWellFormed.simps add: toWellFormed_id)

text \<open>
  The claim as stated fails at the empty string, where the result is \<open>null\<close> and not
  \<open>''\<close>, and at a string with a surrogate that has no partner, which comes back as
  U+FFFD.
\<close>

theorem C7_counterexample:
  "decrypt example_cipher (encrypt example_cipher [1, 2, 3, 4, 5, 6, 7, 8, 9, 10, 11, 12] [])
     \<noteq> Inr (Some [])
   \<and> decrypt example_cipher (encrypt example_cipher [1, 2, 3, 4, 5, 6, 7, 8, 9, 10, 11, 12] [0xD800])
     = Inr (Some [0xFFFD])"
  by (simp add: encrypt_decrypt isWellFormed_lone) (simp add: encrypt_def decrypt_def)

section \<open>Identifier hashing: proofs\<close>

lemma length_round256: "length (round256 s kw) = length s"
  by (induction s kw rule: round256.induct) (simp_all add: Let_def)

lemma length_foldl_round256: "length (foldl round256 s kws) = length s"
  by (induction kws arbitrary: s) (simp_all add: length_round256)

lemma length_compress: "length (compress hs block) = length hs"
  by (simp add: compress_def length_foldl_round256)

lemma length_foldl_compress: "length (foldl compress hs blocks) = length hs"
  by (induction blocks arbitrary: hs) (simp_all add: length_compress)

lemma length_concat_word_bytes: "length (concat (map word_bytes ws)) = 4 * length ws"
  by (induction ws) (simp_all add: word_bytes_def)

lemma length_sha256: "length (sha256 m) = 32"
  by (simp add: sha256_def Let_def length_concat_word_bytes length_foldl_compress H0_def)

lemma length_hashValue: "length (hashValue v) = 64"
  by (simp add: hashValue_def length_toHex length_sha256)

lemma hash_Some: "text \<noteq> [] \<Longrightarrow> hash (units_of text) = Some (hashValue (JStr text))"
  by (simp add: hash_def hashValue_def units_of_def)

lemma hashValue_not_empty: "hashValue v \<noteq> []"
  using length_hashValue [of v] by auto

text \<open>
  C6 (as amended). The model's \<open>hashValue\<close> and \<open>hash\<close> are functions of their argument
  alone, so equal inputs give equal outputs. \<open>hashValue\<close> returns 64 lowercase
  hexadecimal characters for every value. The server's \<open>hash\<close> returns \<open>null\<close> for the empty
  string and, for every other string, the SHA-256 digest of its UTF-8 encoding in 64
  lowercase hexadecimal characters: the same as \<open>hashValue\<close> where both apply.
\<close>

theorem C6_hash_fixed_form:
  "length (hashValue v) = 64 \<and> list_all isLowerHex (hashValue v)
   \<and> hash t = (if t = [] then None else Some (toHex (sha256 (utf8_encode t))))
   \<and> length (toHex (sha256 m)) = 64 \<and> list_all isLowerHex (toHex (sha256 m))
   \<and> hash (units_of text) = (if text = [] then None else Some (hashValue (JStr text)))"
  by (simp add: length_hashValue length_toHex length_sha256 toHex_isLowerHex)
     (simp add: hashValue_def hash_def toHex_isLowerHex units_of_def)

text \<open>The claim as stated fails for the server's \<open>hash\<close> at the empty string.\<close>

theorem C6_counterexample:
  "\<not> (\<exists>h. hash [] = Some h \<and> length h = 64 \<and> list_all isLowerHex h)"
  by (simp add: hash_def)

section \<open>Sanitizer idempotence: proofs\<close>

lemma fold_deleteProp_absent:
  "set ks \<inter> fst ` set ps = {} \<Longrightarrow> fold deleteProp ks ps = ps"
  by (induction ks arbitrary: ps) (auto simp: deleteProp_absent)

lemma keys_fold_deleteProp_set:
  "fst ` set (fold deleteProp ks ps) = fst ` set ps - set ks"
proof -
  have "set (map fst (fold deleteProp ks ps)) = set (map fst ps) - set ks"
    unfolding keys_fold_deleteProp by auto
  then show ?thesis by simp
qed

text \<open>The two rounds of key removal, which is all the sanitizer does when it neither hashes nor rewrites.\<close>

lemma removal_twice:
  "fold deleteProp trackingParams (fold deleteProp piiFields
     (fold deleteProp trackingParams (fold deleteProp piiFields x)))
   = fold deleteProp trackingParams (fold deleteProp piiFields x)"
proof -
  let ?d = "fold deleteProp trackingParams (fold deleteProp piiFields x)"
  have k: "fst ` set ?d = fst ` set x - set piiFields - set trackingParams"
    by (simp add: keys_fold_deleteProp_set)
  have "fold deleteProp piiFields ?d = ?d"
    by (rule fold_deleteProp_absent) (auto simp: k)
  moreover have "fold deleteProp trackingParams ?d = ?d"
    by (rule fold_deleteProp_absent) (auto simp: k)
  ultimately show ?thesis by simp
qed

lemma fold_hashField_falsy:
  "\<forall>f \<in> set fs. \<not> truthy (getProp s f) \<Longrightarrow> fold hashField fs s = s"
  by (induction fs arbitrary: s) (simp_all add: hashField_def)

lemma ids_not_removed:
  "f \<in> set sensitiveIds \<Longrightarrow> f \<notin> set piiFields \<and> f \<notin> set trackingParams"
  by (auto simp: sensitiveIds_def piiFields_def trackingParams_def)

lemma url_not_removed: "''url'' \<notin> set piiFields \<and> ''url'' \<notin> set trackingParams"
  by (simp add: piiFields_def trackingParams_def)

lemma sanitize_only_removes:
  assumes h: "\<not> truthy (hashUserIds this) \<or> (\<forall>f \<in> set sensitiveIds. \<not> truthy (getProp x f))"
    and u: "\<not> truthy (getProp x ''url'') \<or> URL (ToString (getProp x ''url'')) = None"
  shows "sanitizeProperties URL this x = fold deleteProp trackingParams (fold deleteProp piiFields x)"
proof -
  let ?s1 = "fold deleteProp piiFields x"
  have s2: "(if truthy (hashUserIds this) then fold hashField sensitiveIds ?s1 else ?s1) = ?s1"
  proof (cases "truthy (hashUserIds this)")
    case True
    with h have "\<forall>f \<in> set sensitiveIds. \<not> truthy (getProp ?s1 f)"
      by (auto simp: getProp_fold_deleteProp)
    then show ?thesis by (simp add: fold_hashField_falsy)
  next
    case False
    then show ?thesis by simp
  qed
  have g: "getProp (fold deleteProp trackingParams ?s1) ''url'' = getProp x ''url''"
    using url_not_removed by (simp add: getProp_fold_deleteProp)
  show ?thesis
    using u by (auto simp: sanitizeProperties_def Let_def s2 g cleanUrl_def)
qed

lemma sanitize_idempotent_when_only_removing:
  assumes h: "\<not> truthy (hashUserIds this) \<or> (\<forall>f \<in> set sensitiveIds. \<not> truthy (getProp x f))"
    and u: "\<not> truthy (getProp x ''url'') \<or> URL (ToString (getProp x ''url'')) = None"
  shows "sanitizeProperties URL this (sanitizeProperties URL this x) = sanitizeProperties URL this x"
proof -
  let ?d = "fold deleteProp trackingParams (fold deleteProp piiFields x)"
  have s: "sanitizeProperties URL this x = ?d"
    using h u by (rule sanitize_only_removes)
  have gd: "getProp ?d k = getProp x k" if "k \<notin> set piiFields \<and> k \<notin> set trackingParams" for k
    using that by (simp add: getProp_fold_deleteProp)
  have h': "\<not> truthy (hashUserIds this) \<or> (\<forall>f \<in> set sensitiveIds. \<not> truthy (getProp ?d f))"
    using h ids_not_removed by (auto simp: gd)
  have u': "\<not> truthy (getProp ?d ''url'') \<or> URL (ToString (getProp ?d ''url'')) = None"
    using u url_not_removed by (simp add: gd)
  have "sanitizeProperties URL this ?d = fold deleteProp trackingParams (fold deleteProp piiFields ?d)"
    using h' u' by (rule sanitize_only_removes)
  then show ?thesis by (simp add: s removal_twice)
qed

lemma keys_sanitize_twice:
  "map fst (sanitizeProperties URL this (sanitizeProperties URL this x))
     = map fst (sanitizeProperties URL this x)"
  by (simp add: keys_sanitizeProperties)

lemma example_default_config: "PrivacyEnhancer (JObj []) = Inr \<lparr>hashUserIds = JBool True\<rparr>"
  by (simp add: PrivacyEnhancer_def hasProp_def)

text \<open>What a second pass does to the result of a first.\<close>

lemma setProp_same: "truthy (getProp s k) \<Longrightarrow> v = getProp s k \<Longrightarrow> setProp k v s = s"
proof -
  assume t: "truthy (getProp s k)" and v: "v = getProp s k"
  from t have "map_of s k = Some (getProp s k)"
    by (auto simp: getProp_def split: option.splits)
  then show ?thesis by (simp add: setProp_def v update_triv)
qed

lemma getProp_fold_hashField:
  "distinct fs \<Longrightarrow> f \<in> set fs \<Longrightarrow>
     getProp (fold hashField fs s) f
       = (if truthy (getProp s f) then JStr (hashValue (getProp s f)) else getProp s f)"
proof (induction fs arbitrary: s)
  case Nil
  then show ?case by simp
next
  case (Cons g gs)
  show ?case
  proof (cases "g = f")
    case True
    then have "f \<notin> set gs" using Cons.prems(1) by simp
    then have "getProp (fold hashField gs (hashField f s)) f = getProp (hashField f s) f"
      by (rule getProp_fold_hashField_other)
    also have "\<dots> = (if truthy (getProp s f) then JStr (hashValue (getProp s f)) else getProp s f)"
      by (simp add: hashField_def getProp_setProp)
    finally show ?thesis by (simp add: True)
  next
    case False
    then have "f \<in> set gs" "distinct gs" using Cons.prems by simp_all
    then show ?thesis
      using Cons.IH [of "hashField g s"] False by (simp add: getProp_hashField_other)
  qed
qed

lemma fold_hashField_same:
  "\<forall>f \<in> set fs. truthy (getProp s f) \<longrightarrow> JStr (hashValue (getProp s f)) = getProp s f \<Longrightarrow>
     fold hashField fs s = s"
proof (induction fs)
  case Nil
  show ?case by simp
next
  case (Cons g gs)
  have "hashField g s = s"
    using Cons.prems by (simp add: hashField_def setProp_same)
  then show ?case using Cons by simp
qed

lemma sensitiveIds_set:
  "set sensitiveIds = {''userId'', ''customerId'', ''accountId''}" "distinct sensitiveIds"
  by (simp_all add: sensitiveIds_def)

text \<open>The cleaning of a \<open>url\<close> value, read off the one-property object.\<close>

lemma cleanUrl_value:
  assumes "truthy (getProp y ''url'')"
  shows "cleanUrl URL y = setProp ''url'' (getProp (cleanUrl URL [(''url'', getProp y ''url'')]) ''url'') y"
proof -
  have g: "getProp [(''url'', getProp y ''url'')] ''url'' = getProp y ''url''"
    by (simp add: getProp_def)
  show ?thesis
  proof (cases "URL (ToString (getProp y ''url''))")
    case None
    then show ?thesis
      using assms by (simp add: cleanUrl_def g setProp_same)
  next
    case (Some u)
    then show ?thesis
      by (simp add: cleanUrl_def Let_def getProp_setProp g)
  qed
qed

lemma sanitize_single_url:
  assumes "truthy w"
  shows "sanitizeProperties URL this [(''url'', w)]
           = [(''url'', getProp (cleanUrl URL [(''url'', w)]) ''url'')]"
proof -
  have d1: "fold deleteProp piiFields [(''url'', w)] = [(''url'', w)]"
    by (rule fold_deleteProp_absent) (simp add: piiFields_def)
  have d2: "fold deleteProp trackingParams [(''url'', w)] = [(''url'', w)]"
    by (rule fold_deleteProp_absent) (simp add: trackingParams_def)
  have h: "fold hashField sensitiveIds [(''url'', w)] = [(''url'', w)]"
    by (rule fold_hashField_falsy) (simp add: sensitiveIds_def getProp_def)
  have g: "getProp [(''url'', w)] ''url'' = w" by (simp add: getProp_def)
  have "cleanUrl URL [(''url'', w)]
          = setProp ''url'' (getProp (cleanUrl URL [(''url'', w)]) ''url'') [(''url'', w)]"
    using cleanUrl_value [of "[(''url'', w)]" URL] assms by (simp add: g)
  then have c: "cleanUrl URL [(''url'', w)] = [(''url'', getProp (cleanUrl URL [(''url'', w)]) ''url'')]"
    by (simp add: setProp_def)
  show ?thesis
    unfolding sanitizeProperties_def Let_def d1 h d2 if_cancel g using assms c by simp
qed

lemma second_pass:
  fixes URL this x
  defines "q \<equiv> sanitizeProperties URL this x"
  shows "sanitizeProperties URL this q =
           (let h = (if truthy (hashUserIds this) then fold hashField sensitiveIds q else q)
            in if truthy (getProp q ''url'') then cleanUrl URL h else h)"
proof -
  have k: "fst ` set q = fst ` set x - set piiFields - set trackingParams"
  proof -
    have "set (map fst q) = set (map fst x) - set piiFields - set trackingParams"
      unfolding q_def keys_sanitizeProperties by auto
    then show ?thesis by simp
  qed
  have d1: "fold deleteProp piiFields q = q"
    by (rule fold_deleteProp_absent) (auto simp: k)
  let ?h = "if truthy (hashUserIds this) then fold hashField sensitiveIds q else q"
  have kh: "fst ` set ?h = fst ` set q"
  proof -
    have "map fst ?h = map fst q" by (simp add: keys_fold_hashField)
    then have "set (map fst ?h) = set (map fst q)" by (simp only:)
    then show ?thesis by (simp only: set_map)
  qed
  have d2: "fold deleteProp trackingParams ?h = ?h"
    by (rule fold_deleteProp_absent) (auto simp: kh k)
  have "''url'' \<notin> set sensitiveIds" by (simp add: sensitiveIds_def)
  then have u: "getProp ?h ''url'' = getProp q ''url''"
    by (simp add: getProp_fold_hashField_other)
  show ?thesis
    unfolding sanitizeProperties_def [of URL this q] Let_def d1 d2 u ..
qed

lemma idempotent_iff:
  fixes URL this x
  defines "q \<equiv> sanitizeProperties URL this x"
  shows "sanitizeProperties URL this q = q \<longleftrightarrow>
     (truthy (hashUserIds this) \<longrightarrow>
        (\<forall>f \<in> {''userId'', ''customerId'', ''accountId''}.
            truthy (getProp q f) \<longrightarrow> JStr (hashValue (getProp q f)) = getProp q f))
     \<and> (truthy (getProp q ''url'') \<longrightarrow>
          sanitizeProperties URL this [(''url'', getProp q ''url'')] = [(''url'', getProp q ''url'')])"
    (is "?L \<longleftrightarrow> ?H \<and> ?U")
proof -
  let ?h = "if truthy (hashUserIds this) then fold hashField sensitiveIds q else q"
  let ?w = "getProp q ''url''"
  let ?cv = "getProp (cleanUrl URL [(''url'', ?w)]) ''url''"
  have sp: "sanitizeProperties URL this q = (if truthy ?w then cleanUrl URL ?h else ?h)"
    using second_pass [of URL this x] unfolding q_def [symmetric] by (simp add: Let_def)
  have "''url'' \<notin> set sensitiveIds" by (simp add: sensitiveIds_def)
  then have uh: "getProp ?h ''url'' = ?w"
    by (simp add: getProp_fold_hashField_other)
  have U: "?U \<longleftrightarrow> (truthy ?w \<longrightarrow> ?cv = ?w)"
    by (auto simp: sanitize_single_url)
  have gid: "getProp (sanitizeProperties URL this q) f
               = (if truthy (hashUserIds this) \<and> truthy (getProp q f)
                  then JStr (hashValue (getProp q f)) else getProp q f)"
    if f: "f \<in> {''userId'', ''customerId'', ''accountId''}" for f
  proof -
    have nu: "f \<noteq> ''url''" using f by auto
    have fs: "f \<in> set sensitiveIds" using f by (simp add: sensitiveIds_set)
    have "getProp (sanitizeProperties URL this q) f = getProp ?h f"
      unfolding sp using nu by (simp add: getProp_cleanUrl_other)
    also have "\<dots> = (if truthy (hashUserIds this) \<and> truthy (getProp q f)
                  then JStr (hashValue (getProp q f)) else getProp q f)"
      using getProp_fold_hashField [OF sensitiveIds_set(2) fs, of q] by simp
    finally show ?thesis .
  qed
  have gurl: "getProp (sanitizeProperties URL this q) ''url'' = (if truthy ?w then ?cv else ?w)"
  proof (cases "truthy ?w")
    case True
    then have t: "truthy (getProp ?h ''url'')" by (simp only: uh)
    have "cleanUrl URL ?h = setProp ''url'' ?cv ?h"
      using cleanUrl_value [OF t, of URL] by (simp only: uh)
    then show ?thesis unfolding sp using True by (simp add: getProp_setProp)
  next
    case False
    then show ?thesis unfolding sp by (simp add: uh)
  qed
  show ?thesis
  proof
    assume L: ?L
    have "?H"
    proof (intro impI ballI)
      fix f
      assume "truthy (hashUserIds this)" and f: "f \<in> {''userId'', ''customerId'', ''accountId''}"
        and "truthy (getProp q f)"
      then have "getProp (sanitizeProperties URL this q) f = JStr (hashValue (getProp q f))"
        using gid [OF f] by simp
      then show "JStr (hashValue (getProp q f)) = getProp q f" by (simp only: L)
    qed
    moreover have "truthy ?w \<longrightarrow> ?cv = ?w"
    proof
      assume t: "truthy ?w"
      have "getProp (sanitizeProperties URL this q) ''url'' = ?cv" using gurl t by simp
      then show "?cv = ?w" by (simp only: L)
    qed
    ultimately show "?H \<and> ?U" using U by blast
  next
    assume HU: "?H \<and> ?U"
    then have cv: "truthy ?w \<longrightarrow> ?cv = ?w" using U by blast
    have h: "?h = q"
    proof (cases "truthy (hashUserIds this)")
      case True
      then have "\<forall>f \<in> set sensitiveIds. truthy (getProp q f) \<longrightarrow> JStr (hashValue (getProp q f)) = getProp q f"
        using HU by (simp add: sensitiveIds_set)
      then show ?thesis using True by (simp add: fold_hashField_same)
    next
      case False
      then show ?thesis by simp
    qed
    show ?L
    proof (cases "truthy ?w")
      case True
      have "cleanUrl URL q = setProp ''url'' ?cv q"
        using cleanUrl_value [OF True, of URL] .
      also have "\<dots> = q" using True cv by (simp add: setProp_same)
      finally show ?thesis unfolding sp h using True by simp
    next
      case False
      then show ?thesis unfolding sp h by simp
    qed
  qed
qed

lemma example_first_pass:
  "sanitizeProperties URL_examples \<lparr>hashUserIds = JBool True\<rparr>
      [(''email'', JStr ''test@example.com''), (''value'', JNum 123),
       (''url'', JStr ''http://example.com?utm_source=test&utm_medium=email&name=john'')]
     = [(''value'', JNum 123), (''url'', JStr ''http://example.com/?name=john'')]"
  by code_simp

lemma example_clean_url:
  "sanitizeProperties URL_examples \<lparr>hashUserIds = JBool True\<rparr> [(''url'', JStr ''http://example.com/?name=john'')]
     = [(''url'', JStr ''http://example.com/?name=john'')]"
  by code_simp

lemma example_slashes:
  "sanitizeProperties URL_examples \<lparr>hashUserIds = JBool False\<rparr> [(''url'', JStr ''http://example.com//'')]
     = [(''url'', JStr ''http://example.com/'')]"
  "sanitizeProperties URL_examples \<lparr>hashUserIds = JBool False\<rparr> [(''url'', JStr ''http://example.com/'')]
     = [(''url'', JStr ''http://example.com'')]"
  "sanitizeProperties URL_examples \<lparr>hashUserIds = JBool False\<rparr> [(''url'', JStr ''http://example.com'')]
     = [(''url'', JStr ''http://example.com'')]"
  by code_simp+

text \<open>
  C5 (as amended). Sanitizing twice gives the keys of sanitizing once, in the same
  order. The two results are equal exactly when the second pass has nothing to change
  in the first result: with hashing on, every truthy \<open>userId\<close>, \<open>customerId\<close> or
  \<open>accountId\<close> of it is its own digest, and its \<open>url\<close>, when truthy, is one that the
  sanitizer leaves as it is. They are equal in particular when the first pass neither
  hashes (hashing is off, or none of the three ids is truthy) nor rewrites the \<open>url\<close> (it
  is falsy or does not parse).
\<close>

theorem C5_idempotence:
  "map fst (sanitizeProperties URL this (sanitizeProperties URL this x))
       = map fst (sanitizeProperties URL this x)
   \<and> (sanitizeProperties URL this (sanitizeProperties URL this x) = sanitizeProperties URL this x
        \<longleftrightarrow>
          (truthy (hashUserIds this) \<longrightarrow>
             (\<forall>f \<in> {''userId'', ''customerId'', ''accountId''}.
                 truthy (getProp (sanitizeProperties URL this x) f) \<longrightarrow>
                   JStr (hashValue (getProp (sanitizeProperties URL this x) f))
                     = getProp (sanitizeProperties URL this x) f))
          \<and> (truthy (getProp (sanitizeProperties URL this x) ''url'') \<longrightarrow>
                sanitizeProperties URL this [(''url'', getProp (sanitizeProperties URL this x) ''url'')]
                  = [(''url'', getProp (sanitizeProperties URL this x) ''url'')]))
   \<and> ((\<not> truthy (hashUserIds this)
          \<or> (\<forall>f \<in> {''userId'', ''customerId'', ''accountId''}. \<not> truthy (getProp x f)))
        \<and> (\<not> truthy (getProp x ''url'') \<or> URL (ToString (getProp x ''url'')) = None)
      \<longrightarrow> sanitizeProperties URL this (sanitizeProperties URL this x) = sanitizeProperties URL this x)"
proof (intro conjI)
  show "map fst (sanitizeProperties URL this (sanitizeProperties URL this x))
       = map fst (sanitizeProperties URL this x)"
    by (rule keys_sanitize_twice)
next
  show "sanitizeProperties URL this (sanitizeProperties URL this x) = sanitizeProperties URL this x
        \<longleftrightarrow>
          (truthy (hashUserIds this) \<longrightarrow>
             (\<forall>f \<in> {''userId'', ''customerId'', ''accountId''}.
                 truthy (getProp (sanitizeProperties URL this x) f) \<longrightarrow>
                   JStr (hashValue (getProp (sanitizeProperties URL this x) f))
                     = getProp (sanitizeProperties URL this x) f))
          \<and> (truthy (getProp (sanitizeProperties URL this x) ''url'') \<longrightarrow>
                sanitizeProperties URL this [(''url'', getProp (sanitizeProperties URL this x) ''url'')]
                  = [(''url'', getProp (sanitizeProperties URL this x) ''url'')])"
    by (rule idempotent_iff)
next
  show "(\<not> truthy (hashUserIds this)
          \<or> (\<forall>f \<in> {''userId'', ''customerId'', ''accountId''}. \<not> truthy (getProp x f)))
        \<and> (\<not> truthy (getProp x ''url'') \<or> URL (ToString (getProp x ''url'')) = None)
      \<longrightarrow> sanitizeProperties URL this (sanitizeProperties URL this x) = sanitizeProperties URL this x"
    using sanitize_idempotent_when_only_removing [of this x URL]
    by (simp only: sensitiveIds_set(1)) blast
qed

theorem C5_witness:
  "sanitizeProperties URL_examples \<lparr>hashUserIds = JBool True\<rparr>
      (sanitizeProperties URL_examples \<lparr>hashUserIds = JBool True\<rparr>
         [(''email'', JStr ''test@example.com''), (''value'', JNum 123),
          (''url'', JStr ''http://example.com?utm_source=test&utm_medium=email&name=john'')])
     = sanitizeProperties URL_examples \<lparr>hashUserIds = JBool True\<rparr>
         [(''email'', JStr ''test@example.com''), (''value'', JNum 123),
          (''url'', JStr ''http://example.com?utm_source=test&utm_medium=email&name=john'')]
   \<and> sanitizeProperties URL_examples \<lparr>hashUserIds = JBool True\<rparr>
      (sanitizeProperties URL_examples \<lparr>hashUserIds = JBool True\<rparr>
         [(''email'', JStr ''test@example.com''), (''value'', JNum 123), (''url'', JStr ''not-a-valid-url'')])
     = sanitizeProperties URL_examples \<lparr>hashUserIds = JBool True\<rparr>
         [(''email'', JStr ''test@example.com''), (''value'', JNum 123), (''url'', JStr ''not-a-valid-url'')]"
proof -
  have a: "sanitizeProperties URL_examples \<lparr>hashUserIds = JBool True\<rparr>
      (sanitizeProperties URL_examples \<lparr>hashUserIds = JBool True\<rparr>
         [(''email'', JStr ''test@example.com''), (''value'', JNum 123),
          (''url'', JStr ''http://example.com?utm_source=test&utm_medium=email&name=john'')])
     = sanitizeProperties URL_examples \<lparr>hashUserIds = JBool True\<rparr>
         [(''email'', JStr ''test@example.com''), (''value'', JNum 123),
          (''url'', JStr ''http://example.com?utm_source=test&utm_medium=email&name=john'')]"
    using C5_idempotence [of URL_examples "\<lparr>hashUserIds = JBool True\<rparr>"
      "[(''email'', JStr ''test@example.com''), (''value'', JNum 123),
        (''url'', JStr ''http://example.com?utm_source=test&utm_medium=email&name=john'')]"]
    unfolding example_first_pass
    by (simp add: getProp_def example_clean_url)
  have b: "sanitizeProperties URL_examples \<lparr>hashUserIds = JBool True\<rparr>
      (sanitizeProperties URL_examples \<lparr>hashUserIds = JBool True\<rparr>
         [(''email'', JStr ''test@example.com''), (''value'', JNum 123), (''url'', JStr ''not-a-valid-url'')])
     = sanitizeProperties URL_examples \<lparr>hashUserIds = JBool True\<rparr>
         [(''email'', JStr ''test@example.com''), (''value'', JNum 123), (''url'', JStr ''not-a-valid-url'')]"
    using C5_idempotence [of URL_examples "\<lparr>hashUserIds = JBool True\<rparr>"
      "[(''email'', JStr ''test@example.com''), (''value'', JNum 123), (''url'', JStr ''not-a-valid-url'')]"]
    by (simp add: getProp_def URL_examples_def)
  show ?thesis using a b by (rule conjI)
qed

lemma sanitize_example_userId_1:
  "sanitizeProperties URL_examples \<lparr>hashUserIds = JBool True\<rparr> [(''userId'', JStr ''12345'')]
     = [(''userId'', JStr ''5994471abb01112afcc18159f6cc74b4f511b99806da59b3caf5a9c173cacfc5'')]"
  by code_simp

lemma sanitize_example_userId_2:
  "sanitizeProperties URL_examples \<lparr>hashUserIds = JBool True\<rparr>
      [(''userId'', JStr ''5994471abb01112afcc18159f6cc74b4f511b99806da59b3caf5a9c173cacfc5'')]
     = [(''userId'', JStr ''6baad6f126fa53233f5120dd32225d4a9eeaea26dce58789f0b3b6efcdb0dadb'')]"
  by code_simp

text \<open>
  The claim as stated fails twice. Under the default configuration the first pass
  replaces the user id by its digest, and the second pass hashes the digest again. And
  with hashing off, a \<open>url\<close> that ends in two slashes loses one slash in each pass.
\<close>

theorem C5_counterexample:
  "PrivacyEnhancer (JObj []) = Inr \<lparr>hashUserIds = JBool True\<rparr>
   \<and> sanitizeProperties URL_examples \<lparr>hashUserIds = JBool True\<rparr> [(''userId'', JStr ''12345'')]
       = [(''userId'', JStr ''5994471abb01112afcc18159f6cc74b4f511b99806da59b3caf5a9c173cacfc5'')]
   \<and> sanitizeProperties URL_examples \<lparr>hashUserIds = JBool True\<rparr>
        (sanitizeProperties URL_examples \<lparr>hashUserIds = JBool True\<rparr> [(''userId'', JStr ''12345'')])
       = [(''userId'', JStr ''6baad6f126fa53233f5120dd32225d4a9eeaea26dce58789f0b3b6efcdb0dadb'')]
   \<and> sanitizeProperties URL_examples \<lparr>hashUserIds = JBool False\<rparr> [(''url'', JStr ''http://example.com//'')]
       = [(''url'', JStr ''http://example.com/'')]
   \<and> sanitizeProperties URL_examples \<lparr>hashUserIds = JBool False\<rparr>
        (sanitizeProperties URL_examples \<lparr>hashUserIds = JBool False\<rparr> [(''url'', JStr ''http://example.com//'')])
       = [(''url'', JStr ''http://example.com'')]"
  by (simp only: example_default_config sanitize_example_userId_1 sanitize_example_userId_2
        example_slashes simp_thms)

section \<open>PII keys: proofs\<close>

lemma keys_setProp_set: "fst ` set (setProp k v ps) = insert k (fst ` set ps)"
proof -
  have "set (map fst (AList.update k v ps)) = insert k (set (map fst ps))"
    by (auto simp: update_keys)
  then show ?thesis by (simp add: setProp_def)
qed

lemma keys_foldl_setProp:
  "fst ` set (foldl (\<lambda>acc kv. setProp (fst kv) (snd kv) acc) acc es) = fst ` set acc \<union> fst ` set es"
  by (induction es arbitrary: acc) (auto simp: keys_setProp_set)

lemma keys_fromEntries: "fst ` set (fromEntries es) = fst ` set es"
  by (simp add: fromEntries_def keys_foldl_setProp)

lemma entries_or_empty: "entries (if truthy p then p else JObj []) = entries p"
  by (cases p) auto

lemma hasProp_storedProperties:
  "hasProp (storedProperties p) k =
     (\<exists>k0. hasProp (entries p) k0 \<and> keepsKey k0 \<and> k = sanitizeString k0)"
  unfolding storedProperties_def entries_or_empty
  by (force simp: hasProp_def keys_fromEntries)

lemma charCode_eq_iff: "charCode c = charCode d \<longleftrightarrow> c = d"
  by (simp add: charCode_def)

lemma name_char_plain:
  assumes "isLower c \<or> isUpper c \<or> isDigit c \<or> c = CHR ''_''"
  shows "\<not> isSpace c \<and> \<not> (charCode c < 32 \<or> charCode c = 127) \<and> escapeChar c = [c]"
proof -
  have r: "48 \<le> charCode c \<and> charCode c \<le> 122 \<and> charCode c \<noteq> 60 \<and> charCode c \<noteq> 62
         \<and> charCode c \<noteq> 92 \<and> charCode c \<noteq> 96"
    using assms by (auto simp: isLower_def isUpper_def isDigit_def charCode_def)
  have e: "c \<noteq> d" if "charCode d < 48 \<or> charCode d > 122 \<or> charCode d \<in> {60, 62, 92, 96}" for d
    using r that by auto
  have "escapeChar c = [c]"
    unfolding escapeChar_def
    using e [of "CHR ''&''"] e [of "CHR 0x22"] e [of "CHR 0x27"] e [of "CHR ''<''"] e [of "CHR ''>''"]
      e [of "CHR ''/''"] e [of "CHR 0x5C"] e [of "CHR 0x60"]
    by (simp add: charCode_def)
  then show ?thesis using r by (auto simp: isSpace_def)
qed

lemma dropWhile_none: "xs \<noteq> [] \<Longrightarrow> \<forall>c \<in> set xs. \<not> P c \<Longrightarrow> dropWhile P xs = xs"
  by (cases xs) auto

lemma sanitizeString_name:
  assumes "VALID_EVENT_NAME_PATTERN k"
  shows "sanitizeString k = k"
proof -
  have all: "\<forall>c \<in> set k. \<not> isSpace c \<and> \<not> (charCode c < 32 \<or> charCode c = 127) \<and> escapeChar c = [c]"
    using assms name_char_plain by (auto simp: VALID_EVENT_NAME_PATTERN_def list_all_iff)
  have ne: "k \<noteq> []" using assms by (simp add: VALID_EVENT_NAME_PATTERN_def)
  have d1: "dropWhile isSpace k = k"
    using ne all by (intro dropWhile_none) simp_all
  have d2: "dropWhile isSpace (rev k) = rev k"
    using ne all by (intro dropWhile_none) simp_all
  have t: "trim k = k" by (simp add: trim_def d1 d2)
  have s: "stripLow k = k" using all by (simp add: stripLow_def filter_id_conv)
  have "\<forall>c \<in> set xs. escapeChar c = [c] \<Longrightarrow> concat (map escapeChar xs) = xs" for xs
    by (induction xs) simp_all
  then have "escape k = k" using all by (simp add: escape_def)
  then show ?thesis by (simp add: sanitizeString_def t s)
qed

lemma stored_keys_pass_filter:
  assumes "list_all (\<lambda>kv. VALID_EVENT_NAME_PATTERN (fst kv)) (entries p)"
    and "hasProp (storedProperties p) k"
  shows "keepsKey k"
proof -
  obtain k0 where k0: "hasProp (entries p) k0" "keepsKey k0" "k = sanitizeString k0"
    using assms(2) by (auto simp: hasProp_storedProperties)
  have "VALID_EVENT_NAME_PATTERN k0"
    using assms(1) k0(1) by (auto simp: hasProp_def list_all_iff)
  then show ?thesis using k0 by (simp add: sanitizeString_name)
qed

lemma sanitize_removes_piiFields:
  "f \<in> set piiFields \<Longrightarrow> \<not> hasProp (sanitizeProperties URL this properties) f"
proof -
  assume "f \<in> set piiFields"
  then have "f \<notin> set (map fst (sanitizeProperties URL this properties))"
    unfolding keys_sanitizeProperties by simp
  then show ?thesis by (simp add: hasProp_def)
qed

text \<open>
  C1 (as amended). The sanitizer's output has none of the seven keys \<open>email\<close>, \<open>phone\<close>,
  \<open>name\<close>, \<open>address\<close>, \<open>ip\<close>, \<open>password\<close>, \<open>ssn\<close> (compared exactly). Every key that
  \<open>storeEvent\<close> writes is the sanitized form of a key whose lowercase form contains none
  of \<open>email\<close>, \<open>phone\<close>, \<open>address\<close>, \<open>name\<close>; when the keys are made of letters, digits and
  underscores, as the client's validation requires, the stored keys themselves contain
  none of the four.
\<close>

theorem C1_pii_keys_removed:
  "(\<forall>f \<in> set piiFields. \<not> hasProp (sanitizeProperties URL this properties) f)
   \<and> (\<forall>k. hasProp (storedProperties p) k \<longrightarrow>
        (\<exists>k0. hasProp (entries p) k0 \<and> keepsKey k0 \<and> k = sanitizeString k0))
   \<and> (list_all (\<lambda>kv. VALID_EVENT_NAME_PATTERN (fst kv)) (entries p) \<longrightarrow>
        (\<forall>k. hasProp (storedProperties p) k \<longrightarrow> keepsKey k))"
  using sanitize_removes_piiFields [of _ URL this properties] stored_keys_pass_filter [of p]
  by (simp add: hasProp_storedProperties)

lemma example_pii_input:
  "hasProp (storedProperties (JObj [(''userEmail'', JStr ''a@b.c''), (''value'', JNum 123)])) ''value''
   \<and> list_all (\<lambda>kv. VALID_EVENT_NAME_PATTERN (fst kv))
        (entries (JObj [(''userEmail'', JStr ''a@b.c''), (''value'', JNum 123)]))"
  by code_simp

theorem C1_witness:
  "\<not> hasProp (sanitizeProperties URL_examples \<lparr>hashUserIds = JBool True\<rparr>
        [(''email'', JStr ''test@example.com''), (''value'', JNum 123)]) ''email''
   \<and> keepsKey ''value''
   \<and> (\<exists>k0. hasProp (entries (JObj [(''userEmail'', JStr ''a@b.c''), (''value'', JNum 123)])) k0
          \<and> keepsKey k0 \<and> ''value'' = sanitizeString k0)"
  using C1_pii_keys_removed [of URL_examples "\<lparr>hashUserIds = JBool True\<rparr>"
      "[(''email'', JStr ''test@example.com''), (''value'', JNum 123)]"
      "JObj [(''userEmail'', JStr ''a@b.c''), (''value'', JNum 123)]"]
    example_pii_input
  by (simp add: piiFields_def)

text \<open>
  The claim as stated fails. The sanitizer compares keys exactly, so it keeps the key
  \<open>userEmail\<close>, which contains a PII indicator. The key \<open>Password\<close>, whose lowercase
  form is a PII indicator, passes the sanitizer and also the filter of \<open>storeEvent\<close>
  (which does not look for \<open>password\<close>), and is stored.
\<close>

theorem C1_counterexample:
  "includes_str (toLowerCase ''userEmail'') ''email''
   \<and> sanitizeProperties URL_examples \<lparr>hashUserIds = JBool True\<rparr> [(''userEmail'', JStr ''a@b.c'')]
       = [(''userEmail'', JStr ''a@b.c'')]
   \<and> toLowerCase ''Password'' = ''password''
   \<and> sanitizeProperties URL_examples \<lparr>hashUserIds = JBool True\<rparr> [(''Password'', JStr ''hunter2'')]
       = [(''Password'', JStr ''hunter2'')]
   \<and> storedProperties (JObj [(''Password'', JStr ''hunter2'')]) = [(''Password'', JStr ''hunter2'')]"
  by code_simp

section \<open>Stored metadata: proofs\<close>

lemma decrypt_encryptField:
  assumes "iv \<noteq> []"
  shows "decrypt E (encryptField E iv v) = Inr (if isTruthy v then map_option toWellFormed v else None)"
proof (cases v)
  case None
  then show ?thesis by (simp add: encryptField_def isTruthy_def decrypt_def)
next
  case (Some s)
  show ?thesis
  proof (cases "s = []")
    case True
    then show ?thesis by (simp add: Some encryptField_def isTruthy_def decrypt_def)
  next
    case False
    then show ?thesis
      using assms by (simp add: Some encryptField_def isTruthy_def encrypt_decrypt)
  qed
qed

lemma hash_nonempty: "text \<noteq> [] \<Longrightarrow> \<exists>h. hash text = Some h \<and> length h = 64"
  by (simp add: hash_def length_toHex length_sha256)

lemma hashHeader_digest:
  "hashHeader v =
     (case v of
        None \<Rightarrow> None
      | Some h \<Rightarrow> if h = [] then None else Some (units_of (toHex (sha256 (utf8_encode (units_of h))))))"
  by (simp add: hashHeader_def hashField_opt_def hash_def units_of_def split: option.splits)

lemma units_of_empty: "units_of x = [] \<longleftrightarrow> x = []"
  by (simp add: units_of_def)

lemma hashHeader_Some: "x \<noteq> [] \<Longrightarrow> hashHeader (Some x) = Some (units_of (hashValue (JStr x)))"
  by (simp add: hashHeader_digest hashValue_def)

lemma hashHeader_cases:
  "hashHeader v = None \<or> (\<exists>d. hashHeader v = Some (units_of d) \<and> length d = 64)"
proof (cases v)
  case None
  then show ?thesis by (simp add: hashHeader_digest)
next
  case (Some h)
  show ?thesis
  proof (cases "h = []")
    case True
    then show ?thesis by (simp add: Some hashHeader_digest)
  next
    case False
    then have "hashHeader v = Some (units_of (hashValue (JStr h)))"
      by (simp add: Some hashHeader_Some)
    then show ?thesis using length_hashValue [of "JStr h"] by blast
  qed
qed

lemma decrypt_stored_hash:
  assumes "iv \<noteq> []"
  shows "decrypt E (encryptField E iv (hashHeader v)) = Inr (hashHeader v)"
  using hashHeader_cases [of v]
proof (elim disjE exE conjE)
  assume "hashHeader v = None"
  then show ?thesis using decrypt_encryptField [OF assms, of E None] by (simp add: isTruthy_def)
next
  fix d :: string
  assume h: "hashHeader v = Some (units_of d)" and l: "length d = 64"
  have "units_of d \<noteq> []" using l by (auto simp: units_of_def)
  then show ?thesis
    using decrypt_encryptField [OF assms, of E "Some (units_of d)"]
    by (simp add: h isTruthy_def toWellFormed_units_of)
qed

lemma post_events_stored:
  assumes "post_events E iv now req db = Inr (ev, db')"
  shows "e_ip ev = encryptField E (iv_ip iv) (hashHeader (orElse (X_Forwarded_For req) (X_Real_IP req)))
       \<and> e_userAgent ev = encryptField E (iv_userAgent iv) (hashHeader (User_Agent req))
       \<and> e_sessionId ev = encryptField E (iv_sessionId iv) (body_sessionId req)
       \<and> events db' = events db @ [ev]"
  using assms
  by (auto simp: post_events_def storeEvent_def Let_def split: option.splits if_splits jsval.splits)

lemma hashHeader_differs: "length h \<noteq> 64 \<Longrightarrow> hashHeader (Some h) \<noteq> Some (units_of h)"
proof
  assume n: "length h \<noteq> 64" and e: "hashHeader (Some h) = Some (units_of h)"
  then obtain d where "Some (units_of h) = Some (units_of d)" "length d = 64"
    using hashHeader_cases [of "Some h"] by auto
  then have "length (units_of h) = length (units_of d)" by simp
  then show False using n \<open>length d = 64\<close> by (simp add: units_of_def)
qed

text \<open>
  C2 (as amended). In the event that \<open>POST /events\<close> stores, the \<open>sessionId\<close> field holds
  the encryption of the body's session id, and \<open>decrypt\<close> recovers it: exactly when it
  is well formed, and with U+FFFD for a surrogate without its partner otherwise. The
  \<open>ip\<close> and \<open>userAgent\<close> fields hold the encryption of the SHA-256 digest of the header
  values (of their UTF-8 bytes, in hex): \<open>decrypt\<close> recovers the digest, which differs
  from any value that is not 64 characters long. An absent or empty value is stored as
  \<open>null\<close>.
\<close>

theorem C2_stored_metadata:
  "(post_events E iv now req db = Inr (ev, db')
     \<and> length (iv_ip iv) = 12 \<and> length (iv_userAgent iv) = 12 \<and> length (iv_sessionId iv) = 12
      \<longrightarrow> decrypt E (e_sessionId ev)
            = Inr (if isTruthy (body_sessionId req) then map_option toWellFormed (body_sessionId req) else None)
        \<and> (body_sessionId req = Some sid \<and> sid \<noteq> [] \<and> isWellFormed sid
             \<longrightarrow> decrypt E (e_sessionId ev) = Inr (Some sid))
        \<and> decrypt E (e_ip ev) = Inr (hashHeader (orElse (X_Forwarded_For req) (X_Real_IP req)))
        \<and> decrypt E (e_userAgent ev) = Inr (hashHeader (User_Agent req)))
   \<and> hashHeader v =
        (case v of
           None \<Rightarrow> None
         | Some h \<Rightarrow> if h = [] then None else Some (units_of (toHex (sha256 (utf8_encode (units_of h))))))
   \<and> (length s \<noteq> 64 \<longrightarrow> hashHeader (Some s) \<noteq> Some (units_of s))"
proof (intro conjI impI)
  assume a: "post_events E iv now req db = Inr (ev, db')
     \<and> length (iv_ip iv) = 12 \<and> length (iv_userAgent iv) = 12 \<and> length (iv_sessionId iv) = 12"
  then have ne: "iv_ip iv \<noteq> []" "iv_userAgent iv \<noteq> []" "iv_sessionId iv \<noteq> []" by auto
  note st = post_events_stored [of E iv now req db ev db']
  show s: "decrypt E (e_sessionId ev)
            = Inr (if isTruthy (body_sessionId req) then map_option toWellFormed (body_sessionId req) else None)"
    using a st by (simp add: decrypt_encryptField [OF ne(3)])
  show "decrypt E (e_ip ev) = Inr (hashHeader (orElse (X_Forwarded_For req) (X_Real_IP req)))"
    using a st by (simp add: decrypt_stored_hash [OF ne(1)])
  show "decrypt E (e_userAgent ev) = Inr (hashHeader (User_Agent req))"
    using a st by (simp add: decrypt_stored_hash [OF ne(2)])
  assume "body_sessionId req = Some sid \<and> sid \<noteq> [] \<and> isWellFormed sid"
  then show "decrypt E (e_sessionId ev) = Inr (Some sid)"
    unfolding s by (simp add: isTruthy_def toWellFormed_id)
next
  show "hashHeader v =
        (case v of
           None \<Rightarrow> None
         | Some h \<Rightarrow> if h = [] then None else Some (units_of (toHex (sha256 (utf8_encode (units_of h))))))"
    by (rule hashHeader_digest)
next
  assume "length s \<noteq> 64"
  then show "hashHeader (Some s) \<noteq> Some (units_of s)"
    by (rule hashHeader_differs)
qed

lemma ex_post_events:
  "post_events example_cipher ex_ivs 1739000000000 ex_request \<lparr>sites = [], events = []\<rparr>
     = Inr (ex_stored, \<lparr>sites = [], events = [ex_stored]\<rparr>)"
proof -
  have t: "sanitizeString ''login'' = ''login''"
    and s: "sanitizeString ''test-site'' = ''test-site''"
    and p: "storedProperties (JObj []) = []"
    by code_simp+
  show ?thesis
    by (simp add: post_events_def ex_request_def storeEvent_def t s p Let_def ex_stored_def
          orElse_def hashHeader_Some encryptField_def units_of_empty hashValue_not_empty encrypt_def)
qed

lemma ex_session_wellFormed: "isWellFormed (units_of ''test-session'')"
  by code_simp

theorem C2_witness:
  "decrypt example_cipher (e_sessionId ex_stored) = Inr (Some (units_of ''test-session''))
   \<and> decrypt example_cipher (e_ip ex_stored) = Inr (Some (units_of (hashValue (JStr ''192.168.1.1''))))
   \<and> decrypt example_cipher (e_userAgent ex_stored) = Inr (Some (units_of (hashValue (JStr ''Mozilla/5.0''))))
   \<and> hashHeader (Some ''192.168.1.1'') \<noteq> Some (units_of ''192.168.1.1'')"
proof -
  have r: "body_sessionId ex_request = Some (units_of ''test-session'')"
    "orElse (X_Forwarded_For ex_request) (X_Real_IP ex_request) = Some ''192.168.1.1''"
    "User_Agent ex_request = Some ''Mozilla/5.0''"
    by (simp_all add: ex_request_def orElse_def)
  have l: "length (iv_ip ex_ivs) = 12 \<and> length (iv_userAgent ex_ivs) = 12 \<and> length (iv_sessionId ex_ivs) = 12"
    by (simp add: ex_ivs_def)
  have u: "units_of ''test-session'' \<noteq> []" by (simp add: units_of_def)
  show ?thesis
    using C2_stored_metadata [of example_cipher ex_ivs 1739000000000 ex_request
        "\<lparr>sites = [], events = []\<rparr>" ex_stored "\<lparr>sites = [], events = [ex_stored]\<rparr>"
        "units_of ''test-session''" "Some ''192.168.1.1''" "''192.168.1.1''"]
      ex_post_events ex_session_wellFormed u l
    by (simp add: r hashHeader_Some isTruthy_def toWellFormed_units_of hashValue_def
          del: isWellFormed.simps)
qed

text \<open>
  The claim as stated fails for \<open>ip\<close> and \<open>userAgent\<close>: the handler hashes them before
  \<open>storeEvent\<close> encrypts them, so \<open>decrypt\<close> gives the digest and not the address. It also
  fails for a session id with a surrogate that has no partner, which \<open>decrypt\<close> gives
  back as U+FFFD.
\<close>

theorem C2_counterexample:
  "post_events example_cipher ex_ivs 1739000000000 ex_request \<lparr>sites = [], events = []\<rparr>
     = Inr (ex_stored, \<lparr>sites = [], events = [ex_stored]\<rparr>)
   \<and> X_Forwarded_For ex_request = Some ''192.168.1.1''
   \<and> decrypt example_cipher (e_ip ex_stored) \<noteq> Inr (Some (units_of ''192.168.1.1''))
   \<and> (\<exists>ev db'. post_events example_cipher ex_ivs 1739000000000 (ex_request\<lparr>body_sessionId := Some [0xD800]\<rparr>)
                    \<lparr>sites = [], events = []\<rparr> = Inr (ev, db')
             \<and> decrypt example_cipher (e_sessionId ev) = Inr (Some [0xFFFD]))"
proof -
  have d: "decrypt example_cipher (e_ip ex_stored) = Inr (hashHeader (Some ''192.168.1.1''))"
  proof -
    have "e_ip ex_stored = encryptField example_cipher (iv_ip ex_ivs) (hashHeader (Some ''192.168.1.1''))"
      by (simp add: ex_stored_def hashHeader_Some encryptField_def units_of_empty hashValue_not_empty)
    moreover have "iv_ip ex_ivs \<noteq> []" by (simp add: ex_ivs_def)
    ultimately show ?thesis by (simp add: decrypt_stored_hash)
  qed
  have n: "hashHeader (Some ''192.168.1.1'') \<noteq> Some (units_of ''192.168.1.1'')"
    by (rule hashHeader_differs) simp
  have x: "X_Forwarded_For ex_request = Some ''192.168.1.1''"
    by (simp add: ex_request_def)
  have t: "sanitizeString ''login'' = ''login''" by code_simp
  obtain ev db' where p: "post_events example_cipher ex_ivs 1739000000000
        (ex_request\<lparr>body_sessionId := Some [0xD800]\<rparr>) \<lparr>sites = [], events = []\<rparr> = Inr (ev, db')"
    by (simp add: post_events_def ex_request_def storeEvent_def t Let_def)
  have "e_sessionId ev = encryptField example_cipher (iv_sessionId ex_ivs) (Some [0xD800])"
    using post_events_stored [OF p] by simp
  moreover have "iv_sessionId ex_ivs \<noteq> []" by (simp add: ex_ivs_def)
  ultimately have s: "decrypt example_cipher (e_sessionId ev) = Inr (Some [0xFFFD])"
    by (simp add: decrypt_encryptField isTruthy_def isWellFormed_lone(2))
  show ?thesis
    using d n x p s by (auto simp: ex_post_events)
qed

section \<open>GDPR erasure: proofs\<close>

lemma encrypt_has_colon: "encrypt E iv t = Some tok \<Longrightarrow> CHR '':'' \<in> set tok"
  by (auto simp: encrypt_def Let_def split: if_splits prod.splits)

lemma hash_no_colon: "hash t = Some h \<Longrightarrow> CHR '':'' \<notin> set h"
  by (auto simp: hash_def toHex_no_colon split: if_splits)

lemma encrypt_not_hash: "t \<noteq> [] \<Longrightarrow> encrypt E iv s \<noteq> hash t"
proof
  assume t: "t \<noteq> []" and e: "encrypt E iv s = hash t"
  obtain h where h: "hash t = Some h" using t by (auto simp: hash_def)
  then have "CHR '':'' \<in> set h" using e encrypt_has_colon [of E iv s h] by simp
  then show False using hash_no_colon [OF h] by simp
qed

lemma encryptField_not_hash: "t \<noteq> [] \<Longrightarrow> encryptField E iv v \<noteq> hash t"
  using encrypt_not_hash [of t E iv] by (auto simp: encryptField_def hash_def split: option.splits)

lemma erasure_where_session:
  "s \<noteq> [] \<Longrightarrow> erasure_where sid None (Some s) = [(''siteId'', Some sid), (''sessionId'', hash s)]"
  by (simp add: erasure_where_def isTruthy_def hashField_opt_def)

lemma delete_events_session:
  assumes "s \<noteq> []"
  shows "delete_events sid None (Some s) db =
           Inr (db\<lparr>events := filter (\<lambda>e. \<not> (e_siteId e = sid \<and> e_sessionId e = hash s)) (events db)\<rparr>)"
proof -
  have "where_matches [(''siteId'', Some sid), (''sessionId'', hash s)] e
          = (e_siteId e = sid \<and> e_sessionId e = hash s)" for e
    by (simp add: where_matches_def event_field_def)
  then show ?thesis
    using assms
    by (simp add: delete_events_def isTruthy_def erasure_where_session deleteMany_where_def
          where_valid_def event_deleteMany_def)
qed

lemma post_events_session:
  assumes "X_Site_ID req = Some site" "site \<noteq> []" "body_type req = JStr ty"
  shows "\<exists>ev. post_events E iv now req db = Inr (ev, db\<lparr>events := events db @ [ev]\<rparr>)
            \<and> e_sessionId ev = encryptField E (iv_sessionId iv) (body_sessionId req)"
  using assms by (simp add: post_events_def storeEvent_def Let_def)

text \<open>
  C3 (the code differs from the claim). An event ingested with a session id is stored
  with the field \<open>sessionId = encrypt(sessionId)\<close>; the erasure handler builds the
  predicate \<open>sessionId = hash(sessionId)\<close>. The token of \<open>encrypt\<close> contains a colon and
  the digest of \<open>hash\<close> does not, so the predicate matches no stored event, and the
  event is still there after the erasure request.
\<close>

theorem C3_session_erasure_deletes_nothing:
  "X_Site_ID req = Some site \<and> site \<noteq> [] \<and> body_type req = JStr ty
   \<and> body_sessionId req = Some s \<and> s \<noteq> [] \<longrightarrow>
     (case post_events E iv now req db of
        Inl e \<Rightarrow> False
      | Inr (ev, db') \<Rightarrow>
          e_sessionId ev = encrypt E (iv_sessionId iv) s
          \<and> erasure_where sid None (Some s) = [(''siteId'', Some sid), (''sessionId'', hash s)]
          \<and> e_sessionId ev \<noteq> hash s
          \<and> (case delete_events sid None (Some s) db' of
                Inl e \<Rightarrow> False
              | Inr db'' \<Rightarrow> ev \<in> set (events db'')))"
proof
  assume a: "X_Site_ID req = Some site \<and> site \<noteq> [] \<and> body_type req = JStr ty
   \<and> body_sessionId req = Some s \<and> s \<noteq> []"
  then obtain ev where p: "post_events E iv now req db = Inr (ev, db\<lparr>events := events db @ [ev]\<rparr>)"
    and e: "e_sessionId ev = encryptField E (iv_sessionId iv) (body_sessionId req)"
    using post_events_session [of req site ty E iv now db] by blast
  have e': "e_sessionId ev = encrypt E (iv_sessionId iv) s"
    using a e by (simp add: encryptField_def)
  have n: "e_sessionId ev \<noteq> hash s"
    using a e encryptField_not_hash [of s E "iv_sessionId iv" "body_sessionId req"] by simp
  show "case post_events E iv now req db of
        Inl e \<Rightarrow> False
      | Inr (ev, db') \<Rightarrow>
          e_sessionId ev = encrypt E (iv_sessionId iv) s
          \<and> erasure_where sid None (Some s) = [(''siteId'', Some sid), (''sessionId'', hash s)]
          \<and> e_sessionId ev \<noteq> hash s
          \<and> (case delete_events sid None (Some s) db' of
                Inl e \<Rightarrow> False
              | Inr db'' \<Rightarrow> ev \<in> set (events db''))"
    using a e' n by (simp add: p erasure_where_session delete_events_session)
qed

theorem C3_witness:
  "e_sessionId ex_stored = encrypt example_cipher (iv_sessionId ex_ivs) (units_of ''test-session'')
   \<and> erasure_where ''test-site'' None (Some (units_of ''test-session''))
       = [(''siteId'', Some ''test-site''), (''sessionId'', hash (units_of ''test-session''))]
   \<and> e_sessionId ex_stored \<noteq> hash (units_of ''test-session'')
   \<and> (case delete_events ''test-site'' None (Some (units_of ''test-session'')) \<lparr>sites = [], events = [ex_stored]\<rparr> of
         Inl e \<Rightarrow> False
       | Inr db'' \<Rightarrow> ex_stored \<in> set (events db''))"
proof -
  have r: "X_Site_ID ex_request = Some ''test-site''" "body_type ex_request = JStr ''login''"
    "body_sessionId ex_request = Some (units_of ''test-session'')" "units_of ''test-session'' \<noteq> []"
    by (simp_all add: ex_request_def units_of_def)
  have "case post_events example_cipher ex_ivs 1739000000000 ex_request \<lparr>sites = [], events = []\<rparr> of
        Inl e \<Rightarrow> False
      | Inr (ev, db') \<Rightarrow>
          e_sessionId ev = encrypt example_cipher (iv_sessionId ex_ivs) (units_of ''test-session'')
          \<and> erasure_where ''test-site'' None (Some (units_of ''test-session''))
               = [(''siteId'', Some ''test-site''), (''sessionId'', hash (units_of ''test-session''))]
          \<and> e_sessionId ev \<noteq> hash (units_of ''test-session'')
          \<and> (case delete_events ''test-site'' None (Some (units_of ''test-session'')) db' of
                Inl e \<Rightarrow> False
              | Inr db'' \<Rightarrow> ev \<in> set (events db''))"
    using C3_session_erasure_deletes_nothing [where req = ex_request and site = "''test-site''"
        and ty = "''login''" and s = "units_of ''test-session''" and E = example_cipher and iv = ex_ivs
        and now = 1739000000000 and db = "\<lparr>sites = [], events = []\<rparr>" and sid = "''test-site''"] r
    by blast
  then show ?thesis
    unfolding ex_post_events sum.case prod.case .
qed

end
